theory Spec2Isabelle
  imports Complex_Main
begin

section \<open>Random source\<close>

text \<open>
  Every simulation variant draws its jitter from \<^verbatim>\<open>Math.random()\<close>. The embedding makes
  the source of randomness explicit: a command that draws numbers takes a stream
  \<open>rs\<close>, and \<open>rs k\<close> is the value returned by the \<open>k\<close>-th call (counted from 0) made
  while the command runs. \<^verbatim>\<open>Math.random()\<close> returns a number in \<open>[0, 1)\<close>.
  JavaScript numbers are modelled by exact reals where no division by a variable
  occurs (tick-counter and line variants); rounding is not modelled.
\<close>

type_synonym rand = "nat \<Rightarrow> real"

definition unit_draws :: "rand \<Rightarrow> bool" where
  "unit_draws rs \<longleftrightarrow> (\<forall>k. 0 \<le> rs k \<and> rs k < 1)"

section \<open>Tick-counter variant (hooks/useSimulation.ts with scenarios)\<close>

datatype scenario = prototype | vision

datatype AgentStatus = Healthy | Faulty | Compensating | Cooling

record AgentData =
  ident :: nat
  temperature :: real
  fanSpeed :: real
  power :: real
  status :: AgentStatus

record SimulationData =
  agents :: "AgentData list"
  avgTemp :: real
  variance :: real
  avgPower :: real
  recoveryTime :: nat
  efficiency :: real
  phase :: string
  phaseDescription :: string

definition maxSteps :: "scenario \<Rightarrow> nat" where
  "maxSteps sc = (if sc = prototype then 200 else 250)"

definition numAgents :: "scenario \<Rightarrow> nat" where
  "numAgents sc = (if sc = prototype then 6 else 20)"

definition faultStep :: "scenario \<Rightarrow> nat" where
  "faultStep sc = (if sc = prototype then 50 else 100)"

definition targetTemp :: real where
  "targetTemp = 25.0"

text \<open>The non-ASCII symbols of the description strings, as their UTF-8 bytes.\<close>

definition em_dash :: string where
  "em_dash = [CHR 0xE2, CHR 0x80, CHR 0x94]"

definition warning_sign :: string where
  "warning_sign = [CHR 0xE2, CHR 0x9A, CHR 0xA0, CHR 0xEF, CHR 0xB8, CHR 0x8F]"

definition gear_sign :: string where
  "gear_sign = [CHR 0xE2, CHR 0x9A, CHR 0x99, CHR 0xEF, CHR 0xB8, CHR 0x8F]"

definition check_mark :: string where
  "check_mark = [CHR 0xE2, CHR 0x9C, CHR 0x85]"

text \<open>Decimal rendering of a natural number, as string concatenation does it.\<close>

fun showNat :: "nat \<Rightarrow> string" where
  "showNat n =
     (if n < 10 then [char_of (48 + n)]
      else showNat (n div 10) @ [char_of (48 + n mod 10)])"

declare showNat.simps [simp del]

text \<open>The phase label and its description (source lines 37 to 61).\<close>

definition phaseOf :: "scenario \<Rightarrow> nat \<Rightarrow> bool \<Rightarrow> string \<times> string" where
  "phaseOf sc currentStep manualFault =
     (if currentStep < faultStep sc then
        (''Stable Operation'',
         if sc = prototype
         then ''System Stable '' @ em_dash @ '' Energy Efficient Cooling''
         else ''AI Swarm Maintaining Thermal Balance'')
      else if currentStep = faultStep sc \<or> manualFault then
        (''Fault Detected'',
         if sc = prototype
         then warning_sign @ '' Fault Detected '' @ em_dash @ '' Cooling Failure in Agent ''
                @ showNat (numAgents sc - 1)
         else gear_sign @ '' Autonomous Self-Healing in Progress '' @ em_dash
                @ '' Multi-Fault Adaptation'')
      else if currentStep < faultStep sc + 50 then
        (''Self-Healing Response'',
         if sc = prototype
         then ''Self-Healing in Progress '' @ em_dash @ '' Adaptive Load Redistribution''
         else gear_sign @ '' Autonomous Self-Healing in Progress'')
      else
        (''System Stabilized'',
         if sc = prototype
         then check_mark @ '' System Stabilized '' @ em_dash @ '' Partial Recovery Achieved''
         else check_mark @ '' System Restored '' @ em_dash @ '' Zero Downtime Achieved''))"

definition isFaultyAgent :: "scenario \<Rightarrow> nat \<Rightarrow> bool" where
  "isFaultyAgent sc i =
     (if sc = prototype then int i = int (numAgents sc) - 1
      else int i = int (numAgents sc) - 1 \<or> int i = int (numAgents sc) - 2
           \<or> int i = int (numAgents sc) - 3)"

text \<open>
  One iteration of the generation loop (source lines 64 to 109): the readings of agent
  \<open>i\<close>, and the number of draws consumed so far. The draws are taken in the order in which
  the source calls \<^verbatim>\<open>Math.random()\<close> in each branch.
\<close>

definition genAgent ::
  "scenario \<Rightarrow> nat \<Rightarrow> bool \<Rightarrow> rand \<Rightarrow> nat \<Rightarrow> nat \<Rightarrow> AgentData \<times> nat" where
  "genAgent sc currentStep manualFault rs i k =
     (if currentStep \<ge> faultStep sc \<or> manualFault then
        if isFaultyAgent sc i \<and> currentStep < faultStep sc + 100 then
          (\<lparr>ident = i, temperature = targetTemp + 5 + rs k * 3,
            fanSpeed = 0, power = 0, status = Faulty\<rparr>, k + 1)
        else if \<not> isFaultyAgent sc i
                \<and> \<bar>int i - (int (numAgents sc) - 1)\<bar> \<le> (if sc = vision then 5 else 2) then
          if currentStep < faultStep sc + 50 then
            (\<lparr>ident = i, temperature = targetTemp - 0.5 - rs (k + 2),
              fanSpeed = 75 + rs k * 20, power = 500 + rs (k + 1) * 100,
              status = Compensating\<rparr>, k + 3)
          else
            (\<lparr>ident = i, temperature = targetTemp + (rs (k + 2) - 0.5) * 0.5,
              fanSpeed = 55 + rs k * 10, power = 440 + rs (k + 1) * 20,
              status = Healthy\<rparr>, k + 3)
        else
          (\<lparr>ident = i,
            temperature = targetTemp + (rs k - 0.5) * (if sc = vision then 0.2 else 1),
            fanSpeed = 50 + rs (k + 1) * 10, power = 430 + rs (k + 2) * 20,
            status = Healthy\<rparr>, k + 3)
      else
        (\<lparr>ident = i,
          temperature = targetTemp + (rs k - 0.5) * (if sc = vision then 0.1 else 0.4),
          fanSpeed = 50 + rs (k + 1) * 5, power = 430 + rs (k + 2) * 10,
          status = Healthy\<rparr>, k + 3))"

text \<open>The \<^verbatim>\<open>for\<close> loop: agents are pushed in index order, the draw counter is threaded.\<close>

definition genStep ::
  "scenario \<Rightarrow> nat \<Rightarrow> bool \<Rightarrow> rand \<Rightarrow> nat \<Rightarrow> AgentData list \<times> nat \<Rightarrow> AgentData list \<times> nat" where
  "genStep sc currentStep manualFault rs i acc =
     (case genAgent sc currentStep manualFault rs i (snd acc) of
        (a, k') \<Rightarrow> (fst acc @ [a], k'))"

definition genAgents :: "scenario \<Rightarrow> nat \<Rightarrow> bool \<Rightarrow> rand \<Rightarrow> AgentData list" where
  "genAgents sc currentStep manualFault rs =
     fst (fold (genStep sc currentStep manualFault rs) [0..<numAgents sc] ([], 0))"

definition calculateSimulationData :: "scenario \<Rightarrow> nat \<Rightarrow> bool \<Rightarrow> rand \<Rightarrow> SimulationData" where
  "calculateSimulationData sc currentStep manualFault rs =
     (let ags = genAgents sc currentStep manualFault rs;
          avgT = foldl (\<lambda>sum a. sum + temperature a) 0 ags / real (numAgents sc);
          var = foldl (\<lambda>sum a. sum + (temperature a - avgT) ^ 2) 0 ags / real (numAgents sc);
          avgP = foldl (\<lambda>sum a. sum + power a) 0 ags / real (numAgents sc);
          recTime = (if currentStep > faultStep sc \<and> currentStep < faultStep sc + 50
                     then currentStep - faultStep sc else 0);
          eff = (if sc = vision
                 then (if currentStep > faultStep sc + 100 then 1.0 else 0.85)
                 else (if currentStep < faultStep sc then 0.42
                       else if currentStep > faultStep sc + 100 then 0.38 else 0.30))
      in \<lparr>agents = ags, avgTemp = avgT, variance = var, avgPower = avgP,
           recoveryTime = recTime, efficiency = eff,
           phase = fst (phaseOf sc currentStep manualFault),
           phaseDescription = snd (phaseOf sc currentStep manualFault)\<rparr>)"

text \<open>
  The state of the hook: the three \<^verbatim>\<open>useState\<close> cells and the derived data. Each command
  acts on the committed state; a command that recomputes the data draws from its own stream.
\<close>

record SimState =
  step :: nat
  isPlaying :: bool
  faultInjected :: bool
  data :: SimulationData

definition initSim :: "scenario \<Rightarrow> rand \<Rightarrow> SimState" where
  "initSim sc rs =
     \<lparr>step = 0, isPlaying = False, faultInjected = False,
      data = calculateSimulationData sc 0 False rs\<rparr>"

text \<open>The interval callback (source lines 141 to 153); the interval exists only while playing.\<close>

definition onInterval :: "scenario \<Rightarrow> rand \<Rightarrow> SimState \<Rightarrow> SimState" where
  "onInterval sc rs s =
     (if isPlaying s then
        (let next = (if step s \<ge> maxSteps sc then 0 else step s + 1)
         in s\<lparr>step := next, data := calculateSimulationData sc next (faultInjected s) rs\<rparr>)
      else s)"

definition handlePlayPause :: "SimState \<Rightarrow> SimState" where
  "handlePlayPause s = s\<lparr>isPlaying := \<not> isPlaying s\<rparr>"

definition handleReset :: "scenario \<Rightarrow> rand \<Rightarrow> SimState \<Rightarrow> SimState" where
  "handleReset sc rs s =
     s\<lparr>step := 0, isPlaying := False, faultInjected := False,
       data := calculateSimulationData sc 0 False rs\<rparr>"

text \<open>
  \<^verbatim>\<open>handleInjectFault\<close> (source lines 166 to 172) is created by a render of the hook and tests
  the value of \<^verbatim>\<open>faultInjected\<close> that this render saw, not the cell itself. The argument
  \<open>seen\<close> is that value. A call on the handler of the latest render of a state \<open>s\<close> has
  \<open>seen = faultInjected s\<close>; a second call on the same handler, before the hook has rendered
  again, has the same \<open>seen\<close> as the first. The three assignments set the cells to values that
  do not depend on the cells, so calls in one event compose in sequence.
\<close>

definition handleInjectFault :: "scenario \<Rightarrow> bool \<Rightarrow> rand \<Rightarrow> SimState \<Rightarrow> SimState" where
  "handleInjectFault sc seen rs s =
     (if \<not> seen then
        s\<lparr>faultInjected := True, step := faultStep sc,
          data := calculateSimulationData sc (faultStep sc) True rs\<rparr>
      else s)"

definition canInjectFault :: "scenario \<Rightarrow> SimState \<Rightarrow> bool" where
  "canInjectFault sc s \<longleftrightarrow> \<not> faultInjected s \<and> step s < faultStep sc"

text \<open>
  Finite runs of the hook: the interval callback and the three handlers, each with the
  random stream its recomputation of the data consumes. An injection carries the value of
  the latch seen by the render whose handler is called, which is the current value for the
  handler of the latest render and may be an older one otherwise.
\<close>

datatype SimCommand = Tick rand | PlayPause | Reset rand | InjectFault bool rand

fun exec :: "scenario \<Rightarrow> SimCommand \<Rightarrow> SimState \<Rightarrow> SimState" where
  "exec sc (Tick rs) s = onInterval sc rs s"
| "exec sc PlayPause s = handlePlayPause s"
| "exec sc (Reset rs) s = handleReset sc rs s"
| "exec sc (InjectFault seen rs) s = handleInjectFault sc seen rs s"

definition run :: "scenario \<Rightarrow> SimCommand list \<Rightarrow> SimState \<Rightarrow> SimState" where
  "run sc cmds s = fold (exec sc) cmds s"

text \<open>The number of draws consumed by the generation loop before it reaches agent \<open>i\<close>.\<close>

fun drawsBefore :: "scenario \<Rightarrow> nat \<Rightarrow> bool \<Rightarrow> rand \<Rightarrow> nat \<Rightarrow> nat" where
  "drawsBefore sc cs mf rs 0 = 0"
| "drawsBefore sc cs mf rs (Suc i) = snd (genAgent sc cs mf rs i (drawsBefore sc cs mf rs i))"

text \<open>Reference notions for the aggregates: arithmetic mean and population variance.\<close>

definition mean :: "real list \<Rightarrow> real" where
  "mean xs = sum_list xs / real (length xs)"

definition popVariance :: "real list \<Rightarrow> real" where
  "popVariance xs = sum_list (map (\<lambda>x. (x - mean xs) ^ 2) xs) / real (length xs)"

section \<open>JavaScript numbers with infinities and NaN\<close>

text \<open>
  The ring variant divides by the length of a filtered array, which can be zero. Its numbers
  are therefore modelled with the special values of IEEE arithmetic: a finite value (an exact
  real; rounding and overflow are not modelled), the two infinities and NaN. The sign of zero
  is not modelled; the only divisors that can be zero in the source are array lengths,
  which are \<open>+0\<close>.
\<close>

datatype jsnum = Num real | PInf | NInf | NaN

fun jsneg :: "jsnum \<Rightarrow> jsnum" where
  "jsneg (Num a) = Num (- a)"
| "jsneg PInf = NInf"
| "jsneg NInf = PInf"
| "jsneg NaN = NaN"

fun jsadd :: "jsnum \<Rightarrow> jsnum \<Rightarrow> jsnum" where
  "jsadd (Num a) (Num b) = Num (a + b)"
| "jsadd (Num a) PInf = PInf"
| "jsadd (Num a) NInf = NInf"
| "jsadd PInf (Num b) = PInf"
| "jsadd PInf PInf = PInf"
| "jsadd NInf (Num b) = NInf"
| "jsadd NInf NInf = NInf"
| "jsadd PInf NInf = NaN"
| "jsadd NInf PInf = NaN"
| "jsadd NaN y = NaN"
| "jsadd x NaN = NaN"

definition jssub :: "jsnum \<Rightarrow> jsnum \<Rightarrow> jsnum" where
  "jssub x y = jsadd x (jsneg y)"

text \<open>The sign of a number that is not NaN: \<open>1\<close>, \<open>0\<close> or \<open>-1\<close>.\<close>

fun jssign :: "jsnum \<Rightarrow> int" where
  "jssign (Num a) = (if a > 0 then 1 else if a < 0 then - 1 else 0)"
| "jssign PInf = 1"
| "jssign NInf = - 1"
| "jssign NaN = 0"

definition infOfSign :: "int \<Rightarrow> jsnum" where
  "infOfSign s = (if s > 0 then PInf else if s < 0 then NInf else NaN)"

fun jsmul :: "jsnum \<Rightarrow> jsnum \<Rightarrow> jsnum" where
  "jsmul (Num a) (Num b) = Num (a * b)"
| "jsmul NaN y = NaN"
| "jsmul x NaN = NaN"
| "jsmul x y = infOfSign (jssign x * jssign y)"

text \<open>
  Division: a finite non-zero value over zero is an infinity of the dividend's sign,
  zero over zero and infinity over infinity are NaN, finite over infinity is zero.
\<close>

fun jsdiv :: "jsnum \<Rightarrow> jsnum \<Rightarrow> jsnum" where
  "jsdiv (Num a) (Num b) = (if b = 0 then infOfSign (jssign (Num a)) else Num (a / b))"
| "jsdiv NaN y = NaN"
| "jsdiv x NaN = NaN"
| "jsdiv (Num a) PInf = Num 0"
| "jsdiv (Num a) NInf = Num 0"
| "jsdiv x (Num b) = infOfSign (jssign x * (if b < 0 then - 1 else 1))"
| "jsdiv x y = NaN"

text \<open>Comparisons: every comparison with NaN is false.\<close>

fun jslt :: "jsnum \<Rightarrow> jsnum \<Rightarrow> bool" where
  "jslt (Num a) (Num b) = (a < b)"
| "jslt NaN y = False"
| "jslt x NaN = False"
| "jslt PInf y = False"
| "jslt x NInf = False"
| "jslt x PInf = True"
| "jslt NInf y = True"

definition jsgt :: "jsnum \<Rightarrow> jsnum \<Rightarrow> bool" where
  "jsgt x y = jslt y x"

definition jsle :: "jsnum \<Rightarrow> jsnum \<Rightarrow> bool" where
  "jsle x y = (x \<noteq> NaN \<and> y \<noteq> NaN \<and> \<not> jslt y x)"

text \<open>\<^verbatim>\<open>Math.min\<close> and \<^verbatim>\<open>Math.max\<close> return NaN as soon as one argument is NaN.\<close>

definition jsmin :: "jsnum \<Rightarrow> jsnum \<Rightarrow> jsnum" where
  "jsmin x y = (if x = NaN \<or> y = NaN then NaN else if jslt y x then y else x)"

definition jsmax :: "jsnum \<Rightarrow> jsnum \<Rightarrow> jsnum" where
  "jsmax x y = (if x = NaN \<or> y = NaN then NaN else if jslt x y then y else x)"

text \<open>Truthiness of a number: zero and NaN are falsy. \<open>jsor x y\<close> is \<^verbatim>\<open>x || y\<close>.\<close>

definition truthy :: "jsnum \<Rightarrow> bool" where
  "truthy x = (x \<noteq> NaN \<and> x \<noteq> Num 0)"

definition jsor :: "jsnum \<Rightarrow> jsnum \<Rightarrow> jsnum" where
  "jsor x y = (if truthy x then x else y)"

section \<open>Ring variant (features/simulation/hooks/useSimulation.ts)\<close>

datatype HealthStatus = healthy | warning | failed | healing

text \<open>
  Reading a property of \<^verbatim>\<open>undefined\<close> throws; it is the only exception the variants can raise.
\<close>

datatype js_error = TypeError

record Agent =
  ident :: nat
  temperature :: jsnum
  targetTemperature :: jsnum
  load :: jsnum
  fanSpeed :: jsnum
  healthStatus :: HealthStatus
  neighbors :: "nat list"
  isHealing :: bool
  communicating :: bool

definition INITIAL_TEMP :: jsnum where "INITIAL_TEMP = Num 25"
definition TARGET_TEMP :: jsnum where "TARGET_TEMP = Num 22"
definition TEMP_THRESHOLD_HIGH :: jsnum where "TEMP_THRESHOLD_HIGH = Num 28"
definition TEMP_THRESHOLD_LOW :: jsnum where "TEMP_THRESHOLD_LOW = Num 20"
definition COOLING_RATE :: jsnum where "COOLING_RATE = Num 0.5"
definition HEATING_RATE :: jsnum where "HEATING_RATE = Num 0.3"

text \<open>
  One iteration of the creation loop (source lines 15 to 33). The count is an integer; each
  iteration draws twice, the temperature first. For \<open>0 \<le> i < count\<close> the dividends of
  \<^verbatim>\<open>%\<close> are not negative, where the remainder of JavaScript and \<open>mod\<close> agree.
\<close>

definition initialAgent :: "int \<Rightarrow> rand \<Rightarrow> nat \<Rightarrow> Agent" where
  "initialAgent count rs i =
     \<lparr>ident = i,
      temperature = jssub (jsadd INITIAL_TEMP (jsmul (Num (rs (2 * i))) (Num 4))) (Num 2),
      targetTemperature = TARGET_TEMP,
      load = jsadd (jsmul (Num (rs (2 * i + 1))) (Num 50)) (Num 25),
      fanSpeed = Num 50,
      healthStatus = healthy,
      neighbors = [nat ((int i - 1 + count) mod count), nat ((int i + 1) mod count)],
      isHealing = False,
      communicating = False\<rparr>"

definition createInitialAgents :: "int \<Rightarrow> rand \<Rightarrow> Agent list" where
  "createInitialAgents count rs = map (initialAgent count rs) [0..<nat count]"

record SimulationStats =
  averageTemperature :: jsnum
  healthyAgents :: nat
  failedAgents :: nat
  totalLoad :: jsnum

definition calculateStats :: "Agent list \<Rightarrow> SimulationStats" where
  "calculateStats currentAgents =
     \<lparr>averageTemperature =
        jsdiv (foldl (\<lambda>sum a. jsadd sum (Agent.temperature a)) (Num 0) currentAgents)
              (Num (real (length currentAgents))),
      healthyAgents = length (filter (\<lambda>a. healthStatus a = healthy) currentAgents),
      failedAgents = length (filter (\<lambda>a. healthStatus a = failed) currentAgents),
      totalLoad = foldl (\<lambda>sum a. jsadd sum (load a)) (Num 0) currentAgents\<rparr>"

text \<open>
  \<^verbatim>\<open>agent.neighbors.map(id => allAgents[id])\<close>: an index outside the array yields
  \<^verbatim>\<open>undefined\<close> (here \<open>None\<close>), and the filters that follow read its status, which throws.
\<close>

definition neighborLookup :: "Agent list \<Rightarrow> nat list \<Rightarrow> Agent option list" where
  "neighborLookup allAgents ids =
     map (\<lambda>i. if i < length allAgents then Some (allAgents ! i) else None) ids"

definition targetFan :: "Agent \<Rightarrow> jsnum \<Rightarrow> jsnum" where
  "targetFan agent effectiveLoad =
     (let targetFanSpeed =
            (if jsgt (Agent.temperature agent) TEMP_THRESHOLD_HIGH then Num 100
             else if jsgt (Agent.temperature agent) (jsadd (targetTemperature agent) (Num 2))
               then Num 75
             else if jslt (Agent.temperature agent) TEMP_THRESHOLD_LOW then Num 25
             else Num 50)
      in if jsgt effectiveLoad (Num 60) then jsmin (Num 100) (jsadd targetFanSpeed (Num 20))
         else targetFanSpeed)"

text \<open>The update of one agent against the previous population (source lines 58 to 131).\<close>

definition updateAgent :: "Agent \<Rightarrow> Agent list \<Rightarrow> js_error + Agent" where
  "updateAgent agent allAgents =
     (if healthStatus agent = failed then
        Inr (agent\<lparr>Agent.temperature :=
                     jsmin (jsadd (Agent.temperature agent) (jsmul HEATING_RATE (Num 2))) (Num 40),
                   Agent.fanSpeed := Num 0\<rparr>)
      else if None \<in> set (neighborLookup allAgents (neighbors agent)) then Inl TypeError
      else
        (let neighborAgents = map the (neighborLookup allAgents (neighbors agent));
             failedNeighbors = filter (\<lambda>n. healthStatus n = failed) neighborAgents;
             healthyNeighbors =
               filter (\<lambda>n. healthStatus n = healthy \<or> healthStatus n = healing) neighborAgents;
             startHealing = (length failedNeighbors > 0 \<and> healthStatus agent = healthy);
             healingDone = (\<not> startHealing \<and> isHealing agent \<and> length failedNeighbors = 0);
             status1 = (if startHealing then healing
                        else if healingDone then healthy else healthStatus agent);
             isHealing1 = (if startHealing then True
                           else if healingDone then False else isHealing agent);
             extraLoad = jsdiv (foldl (\<lambda>sum n. jsadd sum (load n)) (Num 0) failedNeighbors)
                               (Num (real (length healthyNeighbors)));
             effectiveLoad = jsadd (load agent) (jsor extraLoad (Num 0));
             newFanSpeed =
               jsadd (Agent.fanSpeed agent)
                 (jsmul (jssub (targetFan agent effectiveLoad) (Agent.fanSpeed agent)) (Num 0.3));
             coolingEffect = jsmul (jsdiv newFanSpeed (Num 100)) COOLING_RATE;
             heatingEffect = jsmul (jsdiv effectiveLoad (Num 100)) HEATING_RATE;
             tempChange = jssub heatingEffect coolingEffect;
             newTemp = jsadd (Agent.temperature agent) tempChange;
             newHealthStatus =
               (if jsgt newTemp (Num 35) then warning
                else if jsle newTemp (jsadd (targetTemperature agent) (Num 3))
                        \<and> status1 = warning
                  then (if isHealing1 then healing else healthy)
                else status1)
         in Inr (agent\<lparr>Agent.temperature := jsmax (Num 18) (jsmin (Num 40) newTemp),
                       Agent.fanSpeed := newFanSpeed,
                       healthStatus := newHealthStatus,
                       load := (if jsgt effectiveLoad (load agent)
                                then jsmul effectiveLoad (Num 0.95) else load agent),
                       isHealing := isHealing1,
                       communicating := (length failedNeighbors > 0)\<rparr>)))"

text \<open>
  \<^verbatim>\<open>currentAgents.map(agent => updateAgent(agent, currentAgents))\<close>: the first exception
  aborts the map.
\<close>

fun mapE :: "('a \<Rightarrow> 'e + 'b) \<Rightarrow> 'a list \<Rightarrow> 'e + 'b list" where
  "mapE f [] = Inr []"
| "mapE f (x # xs) =
     (case f x of
        Inl e \<Rightarrow> Inl e
      | Inr y \<Rightarrow> (case mapE f xs of Inl e \<Rightarrow> Inl e | Inr ys \<Rightarrow> Inr (y # ys)))"

text \<open>
  The state of the hook. The temperature history only feeds the chart and is left out.
\<close>

record RingState =
  agents :: "Agent list"
  isRunning :: bool
  time :: nat

definition initRing :: "int \<Rightarrow> rand \<Rightarrow> RingState" where
  "initRing agentCount rs =
     \<lparr>agents = createInitialAgents agentCount rs, isRunning = False, time = 0\<rparr>"

definition simulationStep :: "RingState \<Rightarrow> js_error + RingState" where
  "simulationStep s =
     (case mapE (\<lambda>agent. updateAgent agent (RingState.agents s)) (RingState.agents s) of
        Inl e \<Rightarrow> Inl e
      | Inr updatedAgents \<Rightarrow> Inr (s\<lparr>RingState.agents := updatedAgents, time := time s + 1\<rparr>))"

definition toggleSimulation :: "RingState \<Rightarrow> RingState" where
  "toggleSimulation s = s\<lparr>isRunning := \<not> isRunning s\<rparr>"

definition resetSimulation :: "int \<Rightarrow> rand \<Rightarrow> RingState \<Rightarrow> RingState" where
  "resetSimulation agentCount rs s =
     s\<lparr>RingState.agents := createInitialAgents agentCount rs, time := 0, isRunning := False\<rparr>"

definition triggerFailure :: "nat \<Rightarrow> RingState \<Rightarrow> RingState" where
  "triggerFailure agentId s =
     s\<lparr>RingState.agents :=
         map (\<lambda>agent. if Agent.ident agent = agentId
                       then agent\<lparr>healthStatus := failed, Agent.fanSpeed := Num 0\<rparr>
                       else agent)
             (RingState.agents s)\<rparr>"

definition repairAgent :: "nat \<Rightarrow> RingState \<Rightarrow> RingState" where
  "repairAgent agentId s =
     s\<lparr>RingState.agents :=
         map (\<lambda>agent. if Agent.ident agent = agentId
                       then agent\<lparr>healthStatus := healthy, isHealing := False\<rparr>
                       else agent)
             (RingState.agents s)\<rparr>"

text \<open>
  Finite runs of the ring hook: the interval callback, which exists only while the simulation
  runs, and the buttons. A run stops at the first exception.
\<close>

datatype RingCommand = Step | Toggle | ResetSim rand | TriggerFailure nat | RepairAgent nat

fun execRing :: "int \<Rightarrow> RingCommand \<Rightarrow> RingState \<Rightarrow> js_error + RingState" where
  "execRing n Step s = (if isRunning s then simulationStep s else Inr s)"
| "execRing n Toggle s = Inr (toggleSimulation s)"
| "execRing n (ResetSim rs) s = Inr (resetSimulation n rs s)"
| "execRing n (TriggerFailure i) s = Inr (triggerFailure i s)"
| "execRing n (RepairAgent i) s = Inr (repairAgent i s)"

fun runRing :: "int \<Rightarrow> RingCommand list \<Rightarrow> RingState \<Rightarrow> js_error + RingState" where
  "runRing n [] s = Inr s"
| "runRing n (c # cs) s =
     (case execRing n c s of Inl e \<Rightarrow> Inl e | Inr s' \<Rightarrow> runRing n cs s')"

section \<open>Line variant (script.js)\<close>

text \<open>
  The two copies of \<^verbatim>\<open>script.js\<close> share their helpers and data and differ in the order of
  the last two phases of \<^verbatim>\<open>swarmStep\<close>. \<open>rnd r a b\<close> is \<^verbatim>\<open>rnd(a,b)\<close> with the draw \<open>r\<close>.
\<close>

definition rnd :: "real \<Rightarrow> real \<Rightarrow> real \<Rightarrow> real" where
  "rnd r a b = r * (b - a) + a"

definition clamp :: "real \<Rightarrow> real \<Rightarrow> real \<Rightarrow> real" where
  "clamp v a b = max a (min b v)"

datatype SwarmStatus = OK | HOT | FAIL

record SwarmAgent =
  ident :: string
  temp :: real
  load :: real
  power :: real
  neighbors :: "string list"
  status :: SwarmStatus

record KPIData =
  energyMW :: real
  lossPct :: real
  uptime :: real
  renMix :: real

text \<open>
  The global \<^verbatim>\<open>state\<close> object and the global \<^verbatim>\<open>agents\<close> array. The flag \<open>running\<close> is set
  exactly while the interval is installed (\<^verbatim>\<open>loopId\<close> is not null). The KPI history only
  feeds the delta display and is left out.
\<close>

record SwarmState =
  running :: bool
  tick :: nat
  data :: KPIData
  agents :: "SwarmAgent list"

definition agentNames :: "string list" where
  "agentNames = [''Z1-A'', ''Z1-B'', ''Z2-A'', ''Z2-B'', ''Z3-A'', ''Z3-B'']"

text \<open>The neighbour loop (lines 126 to 129): the previous and the next name, where they exist.\<close>

definition lineNeighbors :: "string list \<Rightarrow> nat \<Rightarrow> string list" where
  "lineNeighbors names i =
     (if i > 0 then [names ! (i - 1)] else [])
     @ (if i < length names - 1 then [names ! (i + 1)] else [])"

definition initialSwarm :: "rand \<Rightarrow> SwarmAgent list" where
  "initialSwarm rs =
     map (\<lambda>i. \<lparr>ident = agentNames ! i,
               temp = rnd (rs (3 * i)) 25 28,
               load = rnd (rs (3 * i + 1)) 0.35 0.65,
               power = rnd (rs (3 * i + 2)) 2.5 4.5,
               neighbors = lineNeighbors agentNames i,
               status = OK\<rparr>)
         [0..<length agentNames]"

definition initialKPI :: KPIData where
  "initialKPI = \<lparr>energyMW = 22, lossPct = 3.6, uptime = 99.96, renMix = 32\<rparr>"

definition initSwarm :: "rand \<Rightarrow> SwarmState" where
  "initSwarm rs = \<lparr>running = False, tick = 0, data = initialKPI, agents = initialSwarm rs\<rparr>"

text \<open>
  Objects of the array are identified by their position. \<open>agentById\<close> is
  \<^verbatim>\<open>agents.find(a => a.id === id)\<close>: the position of the first agent with that name, \<open>None\<close>
  for \<^verbatim>\<open>undefined\<close>.
\<close>

fun findIndex :: "('a \<Rightarrow> bool) \<Rightarrow> 'a list \<Rightarrow> nat option" where
  "findIndex P [] = None"
| "findIndex P (x # xs) = (if P x then Some 0 else map_option Suc (findIndex P xs))"

definition agentById :: "string \<Rightarrow> SwarmAgent list \<Rightarrow> nat option" where
  "agentById nid as = findIndex (\<lambda>a. SwarmAgent.ident a = nid) as"

text \<open>A \<^verbatim>\<open>forEach\<close> whose body may throw: the first exception aborts the loop.\<close>

fun foldE :: "('a \<Rightarrow> 's \<Rightarrow> 'e + 's) \<Rightarrow> 'a list \<Rightarrow> 's \<Rightarrow> 'e + 's" where
  "foldE f [] s = Inr s"
| "foldE f (x # xs) s = (case f x s of Inl e \<Rightarrow> Inl e | Inr s' \<Rightarrow> foldE f xs s')"

definition setPower :: "nat \<Rightarrow> real \<Rightarrow> SwarmAgent list \<Rightarrow> SwarmAgent list" where
  "setPower i p as = as[i := (as ! i)\<lparr>SwarmAgent.power := p\<rparr>]"

text \<open>Phase 1, the local update of one agent, with its two draws (temperature, then load).\<close>

definition localUpdate :: "real \<Rightarrow> real \<Rightarrow> real \<Rightarrow> real \<Rightarrow> SwarmAgent \<Rightarrow> SwarmAgent" where
  "localUpdate ambient renBoost r1 r2 a =
     (let heat = SwarmAgent.load a * 8;
          cooling = SwarmAgent.power a * (1.8 + renBoost)
      in a\<lparr>temp := clamp (temp a + 0.05 * heat - 0.06 * cooling + rnd r1 (- 0.15) 0.2)
                          (ambient - 1) 42,
           SwarmAgent.load := clamp (SwarmAgent.load a + rnd r2 (- 0.02) 0.02) 0.15 0.95\<rparr>)"

definition localUpdates ::
  "real \<Rightarrow> real \<Rightarrow> rand \<Rightarrow> nat \<Rightarrow> SwarmAgent list \<Rightarrow> SwarmAgent list" where
  "localUpdates ambient renBoost rs k as =
     map (\<lambda>j. localUpdate ambient renBoost (rs (k + 2 * j)) (rs (k + 2 * j + 1)) (as ! j))
         [0..<length as]"

text \<open>
  Phase 2 (lines 167 to 175). The body of the inner loop for the hot agent at position \<open>i\<close>
  and one of its neighbour names: the neighbour's power goes up, then the hot agent's own
  power goes down. Both assignments are inside the loop over the neighbours.
\<close>

definition shareDuty :: "nat \<Rightarrow> string \<Rightarrow> SwarmAgent list \<Rightarrow> js_error + SwarmAgent list" where
  "shareDuty i nid as =
     (case agentById nid as of
        None \<Rightarrow> Inl TypeError
      | Some j \<Rightarrow>
          (let as1 = setPower j (clamp (SwarmAgent.power (as ! j) + 0.15) 1.5 6.0) as
           in Inr (setPower i (clamp (SwarmAgent.power (as1 ! i) - 0.12) 1.0 6.0) as1)))"

definition balanceHot :: "nat \<Rightarrow> SwarmAgent list \<Rightarrow> js_error + SwarmAgent list" where
  "balanceHot i as =
     foldE (shareDuty i) (SwarmAgent.neighbors (as ! i))
       (as[i := (as ! i)\<lparr>SwarmAgent.status := HOT\<rparr>])"

definition hotIndices :: "SwarmAgent list \<Rightarrow> nat list" where
  "hotIndices as = filter (\<lambda>i. temp (as ! i) > 33) [0..<length as]"

definition hotPhase :: "SwarmAgent list \<Rightarrow> js_error + SwarmAgent list" where
  "hotPhase as = foldE balanceHot (hotIndices as) as"

text \<open>
  The rare failure: one draw decides whether it happens, a second one picks the agent.
\<close>

definition boost :: "string \<Rightarrow> SwarmAgent list \<Rightarrow> js_error + SwarmAgent list" where
  "boost nid as =
     (case agentById nid as of
        None \<Rightarrow> Inl TypeError
      | Some j \<Rightarrow> Inr (setPower j (clamp (SwarmAgent.power (as ! j) + 0.5) 1.5 6.0) as))"

definition rareFailure ::
  "rand \<Rightarrow> nat \<Rightarrow> SwarmAgent list \<Rightarrow> js_error + SwarmAgent list \<times> nat" where
  "rareFailure rs k as =
     (if rs k < 0.02 then
        (let idx = \<lfloor>rs (k + 1) * real (length as)\<rfloor>
         in if 0 \<le> idx \<and> idx < int (length as) then
              (let i = nat idx;
                   as1 = as[i := (as ! i)\<lparr>SwarmAgent.status := FAIL,
                             SwarmAgent.power := clamp (SwarmAgent.power (as ! i) * 0.2) 0.2 1.0\<rparr>]
               in case foldE boost (SwarmAgent.neighbors (as1 ! i)) as1 of
                    Inl e \<Rightarrow> Inl e
                  | Inr as2 \<Rightarrow> Inr (as2, k + 2))
            else Inl TypeError)
      else Inr (as, k + 1))"

text \<open>Settling: an agent that is not hot and has not failed draws once.\<close>

fun settle :: "rand \<Rightarrow> nat \<Rightarrow> SwarmAgent list \<Rightarrow> SwarmAgent list \<times> nat" where
  "settle rs k [] = ([], k)"
| "settle rs k (a # as) =
     (if temp a \<le> 33 \<and> SwarmAgent.status a \<noteq> FAIL then
        (case settle rs (k + 1) as of
           (as', k') \<Rightarrow>
             (a\<lparr>SwarmAgent.status := OK,
                SwarmAgent.power :=
                  clamp (SwarmAgent.power a + rnd (rs k) (- 0.08) 0.08) 1.5 6.0\<rparr> # as', k'))
      else (case settle rs k as of (as', k') \<Rightarrow> (a # as', k')))"

text \<open>
  \<^verbatim>\<open>swarmStep\<close> of \<^verbatim>\<open>HacktonWeb1/script.js\<close>: local update, hot phase, rare failure, settling.
  The draws are numbered from \<open>k\<close>; the result carries the number of the next draw.
\<close>

definition swarmStep ::
  "nat \<Rightarrow> real \<Rightarrow> rand \<Rightarrow> nat \<Rightarrow> SwarmAgent list \<Rightarrow> js_error + SwarmAgent list \<times> nat" where
  "swarmStep tk ren rs k as =
     (let ambient = 24 + sin (real tk / 25) * 1.0;
          renBoost = (ren - 30) * 0.002;
          as1 = localUpdates ambient renBoost rs k as
      in case hotPhase as1 of
           Inl e \<Rightarrow> Inl e
         | Inr as2 \<Rightarrow>
             (case rareFailure rs (k + 2 * length as) as2 of
                Inl e \<Rightarrow> Inl e
              | Inr (as3, k3) \<Rightarrow> Inr (settle rs k3 as3)))"

text \<open>
  \<^verbatim>\<open>swarmStep\<close> of \<^verbatim>\<open>newWeb/script.js\<close>: local update, hot phase, settling, rare failure.
\<close>

definition swarmStepNew ::
  "nat \<Rightarrow> real \<Rightarrow> rand \<Rightarrow> nat \<Rightarrow> SwarmAgent list \<Rightarrow> js_error + SwarmAgent list \<times> nat" where
  "swarmStepNew tk ren rs k as =
     (let ambient = 24 + sin (real tk / 25) * 1.0;
          renBoost = (ren - 30) * 0.002;
          as1 = localUpdates ambient renBoost rs k as
      in case hotPhase as1 of
           Inl e \<Rightarrow> Inl e
         | Inr as2 \<Rightarrow>
             (case settle rs (k + 2 * length as) as2 of
                (as3, k3) \<Rightarrow> rareFailure rs k3 as3))"

text \<open>
  The main loop body \<^verbatim>\<open>step()\<close>: the tick is incremented first, the KPIs take three draws,
  then the swarm step runs on the new tick and the new renewable mix. The flag selects the
  copy of \<^verbatim>\<open>swarmStep\<close>. The last draw of \<^verbatim>\<open>step()\<close> only writes a log line.
\<close>

definition stepKPI :: "nat \<Rightarrow> rand \<Rightarrow> KPIData \<Rightarrow> KPIData" where
  "stepKPI tk rs d =
     (let day = sin (real tk / 20);
          e = clamp (energyMW d + rnd (rs 0) (- 0.4) 0.6 + day * 0.25) 12 40;
          r = clamp (renMix d + rnd (rs 1) (- 0.8) 1.0) 15 80;
          l = clamp (lossPct d + rnd (rs 2) (- 0.08) 0.10 - (r - 30) * 0.002) 2.0 6.2;
          u = clamp (99.90 + \<bar>sin (real tk / 200)\<bar> * 0.1) 99.7 100
      in \<lparr>energyMW = e, lossPct = l, uptime = u, renMix = r\<rparr>)"

definition stepLoop :: "bool \<Rightarrow> rand \<Rightarrow> SwarmState \<Rightarrow> js_error + SwarmState" where
  "stepLoop newWeb rs s =
     (let tk = SwarmState.tick s + 1;
          d = stepKPI tk rs (SwarmState.data s)
      in case (if newWeb then swarmStepNew tk (renMix d) rs 3 (SwarmState.agents s)
               else swarmStep tk (renMix d) rs 3 (SwarmState.agents s)) of
           Inl e \<Rightarrow> Inl e
         | Inr (as', k) \<Rightarrow>
             Inr (s\<lparr>SwarmState.tick := tk, SwarmState.data := d, SwarmState.agents := as'\<rparr>))"

definition start :: "SwarmState \<Rightarrow> SwarmState" where
  "start s = (if running s then s else s\<lparr>running := True\<rparr>)"

definition stop :: "SwarmState \<Rightarrow> SwarmState" where
  "stop s = (if running s then s\<lparr>running := False\<rparr> else s)"

definition resetAgent :: "rand \<Rightarrow> nat \<Rightarrow> SwarmAgent \<Rightarrow> SwarmAgent" where
  "resetAgent rs j a =
     a\<lparr>temp := rnd (rs (3 * j)) 25 28,
       SwarmAgent.load := rnd (rs (3 * j + 1)) 0.35 0.65,
       SwarmAgent.power := rnd (rs (3 * j + 2)) 2.5 4.5,
       SwarmAgent.status := OK\<rparr>"

definition reset :: "rand \<Rightarrow> SwarmState \<Rightarrow> SwarmState" where
  "reset rs s =
     (stop s)\<lparr>SwarmState.tick := 0, SwarmState.data := initialKPI,
              SwarmState.agents :=
                map (\<lambda>j. resetAgent rs j (SwarmState.agents s ! j))
                    [0..<length (SwarmState.agents s)]\<rparr>"

text \<open>Finite runs of the page: the interval fires only while running.\<close>

datatype SwarmCommand = LoopStep rand | Start | Stop | ResetSwarm rand

fun execSwarm :: "bool \<Rightarrow> SwarmCommand \<Rightarrow> SwarmState \<Rightarrow> js_error + SwarmState" where
  "execSwarm nw (LoopStep rs) s = (if running s then stepLoop nw rs s else Inr s)"
| "execSwarm nw Start s = Inr (start s)"
| "execSwarm nw Stop s = Inr (stop s)"
| "execSwarm nw (ResetSwarm rs) s = Inr (reset rs s)"

fun runSwarm :: "bool \<Rightarrow> SwarmCommand list \<Rightarrow> SwarmState \<Rightarrow> js_error + SwarmState" where
  "runSwarm nw [] s = Inr s"
| "runSwarm nw (c # cs) s =
     (case execSwarm nw c s of Inl e \<Rightarrow> Inl e | Inr s' \<Rightarrow> runSwarm nw cs s')"

section \<open>Auxiliary notions for the proofs\<close>

text \<open>The branch conditions of the generation loop, named.\<close>

definition afterFault :: "scenario \<Rightarrow> nat \<Rightarrow> bool \<Rightarrow> bool" where
  "afterFault sc cs mf \<longleftrightarrow> faultStep sc \<le> cs \<or> mf"

definition faultyNow :: "scenario \<Rightarrow> nat \<Rightarrow> nat \<Rightarrow> bool" where
  "faultyNow sc cs i \<longleftrightarrow> isFaultyAgent sc i \<and> cs < faultStep sc + 100"

definition nearFault :: "scenario \<Rightarrow> nat \<Rightarrow> bool" where
  "nearFault sc i \<longleftrightarrow>
     \<not> isFaultyAgent sc i \<and> \<bar>int i - (int (numAgents sc) - 1)\<bar> \<le> (if sc = vision then 5 else 2)"

text \<open>A snapshot whose aggregates agree with its own agent list.\<close>

definition consistentData :: "SimulationData \<Rightarrow> bool" where
  "consistentData d \<longleftrightarrow>
     avgTemp d = mean (map AgentData.temperature (SimulationData.agents d))
     \<and> variance d = popVariance (map AgentData.temperature (SimulationData.agents d))
     \<and> avgPower d = mean (map AgentData.power (SimulationData.agents d))"

text \<open>The ranges of the readings that the tick-counter variant produces.\<close>

definition inRangeData :: "AgentData \<Rightarrow> bool" where
  "inRangeData a \<longleftrightarrow>
     23.5 \<le> AgentData.temperature a \<and> AgentData.temperature a \<le> 33
     \<and> 0 \<le> AgentData.fanSpeed a \<and> AgentData.fanSpeed a \<le> 100
     \<and> 0 \<le> AgentData.power a \<and> AgentData.power a \<le> 600"

text \<open>
  Ranges of the ring variant: a finite reading within bounds, a load that is positive
  (finite or infinite), a sum of loads that is not negative.
\<close>

definition finiteIn :: "real \<Rightarrow> real \<Rightarrow> jsnum \<Rightarrow> bool" where
  "finiteIn lo hi x = (case x of Num v \<Rightarrow> lo \<le> v \<and> v \<le> hi | _ \<Rightarrow> False)"

definition posOrInf :: "jsnum \<Rightarrow> bool" where
  "posOrInf x = (case x of Num v \<Rightarrow> 0 < v | PInf \<Rightarrow> True | _ \<Rightarrow> False)"

definition nonnegOrInf :: "jsnum \<Rightarrow> bool" where
  "nonnegOrInf x = (case x of Num v \<Rightarrow> 0 \<le> v | PInf \<Rightarrow> True | _ \<Rightarrow> False)"

definition ringAgentOK :: "nat \<Rightarrow> Agent \<Rightarrow> bool" where
  "ringAgentOK n a \<longleftrightarrow>
     finiteIn 18 40 (Agent.temperature a) \<and> finiteIn 0 100 (Agent.fanSpeed a)
     \<and> posOrInf (Agent.load a) \<and> list_all (\<lambda>j. j < n) (Agent.neighbors a)
     \<and> (healthStatus a \<noteq> failed \<or> Agent.fanSpeed a = Num 0)"

definition ringInv :: "nat \<Rightarrow> RingState \<Rightarrow> bool" where
  "ringInv n s \<longleftrightarrow>
     length (RingState.agents s) = n \<and> list_all (ringAgentOK n) (RingState.agents s)"

fun ringDrawsOK :: "RingCommand \<Rightarrow> bool" where
  "ringDrawsOK (ResetSim rs) = unit_draws rs"
| "ringDrawsOK c = True"

fun simDrawsOK :: "SimCommand \<Rightarrow> bool" where
  "simDrawsOK (Tick rs) = unit_draws rs"
| "simDrawsOK (Reset rs) = unit_draws rs"
| "simDrawsOK (InjectFault seen rs) = unit_draws rs"
| "simDrawsOK PlayPause = True"

text \<open>Intermediate values of the update of a running agent.\<close>

definition effLoad :: "Agent \<Rightarrow> Agent list \<Rightarrow> jsnum" where
  "effLoad agent nb =
     jsadd (Agent.load agent)
       (jsor (jsdiv (foldl (\<lambda>sum n. jsadd sum (Agent.load n)) (Num 0)
                      (filter (\<lambda>n. healthStatus n = failed) nb))
                    (Num (real (length
                      (filter (\<lambda>n. healthStatus n = healthy \<or> healthStatus n = healing) nb)))))
             (Num 0))"

definition fanOf :: "Agent \<Rightarrow> jsnum \<Rightarrow> jsnum" where
  "fanOf agent eff =
     jsadd (Agent.fanSpeed agent)
       (jsmul (jssub (targetFan agent eff) (Agent.fanSpeed agent)) (Num 0.3))"

definition tempOf :: "Agent \<Rightarrow> jsnum \<Rightarrow> jsnum" where
  "tempOf agent eff =
     jsadd (Agent.temperature agent)
       (jssub (jsmul (jsdiv eff (Num 100)) HEATING_RATE)
              (jsmul (jsdiv (fanOf agent eff) (Num 100)) COOLING_RATE))"

text \<open>
  Line variant: the part of the population that never changes (names and neighbour names),
  the wiring of the page, and the ranges of the readings.
\<close>

definition skel :: "SwarmAgent list \<Rightarrow> (string \<times> string list) list" where
  "skel as = map (\<lambda>a. (SwarmAgent.ident a, SwarmAgent.neighbors a)) as"

definition lineSkel :: "(string \<times> string list) list" where
  "lineSkel =
     map (\<lambda>i. (agentNames ! i, lineNeighbors agentNames i)) [0..<length agentNames]"

definition lineRange :: "SwarmAgent \<Rightarrow> bool" where
  "lineRange a \<longleftrightarrow>
     22 \<le> temp a \<and> temp a \<le> 42
     \<and> 0.15 \<le> SwarmAgent.load a \<and> SwarmAgent.load a \<le> 0.95
     \<and> 0.2 \<le> SwarmAgent.power a \<and> SwarmAgent.power a \<le> 6"

definition lineInv :: "SwarmAgent list \<Rightarrow> bool" where
  "lineInv as \<longleftrightarrow> skel as = lineSkel \<and> list_all lineRange as"

fun swarmDrawsOK :: "SwarmCommand \<Rightarrow> bool" where
  "swarmDrawsOK (LoopStep rs) = unit_draws rs"
| "swarmDrawsOK (ResetSwarm rs) = unit_draws rs"
| "swarmDrawsOK c = True"








section \<open>Tick-counter variant: generated agents, aggregates, runs\<close>

lemma gen_fold:
  "fold (genStep sc cs mf rs) [0..<n] ([], 0) =
     (map (\<lambda>i. fst (genAgent sc cs mf rs i (drawsBefore sc cs mf rs i))) [0..<n],
      drawsBefore sc cs mf rs n)"
  by (induction n) (simp_all add: genStep_def split: prod.splits)

lemma genAgents_map:
  "genAgents sc cs mf rs =
     map (\<lambda>i. fst (genAgent sc cs mf rs i (drawsBefore sc cs mf rs i))) [0..<numAgents sc]"
  by (simp add: genAgents_def gen_fold)

lemma length_genAgents: "length (genAgents sc cs mf rs) = numAgents sc"
  by (simp add: genAgents_map)

lemma nth_genAgents:
  "i < numAgents sc \<Longrightarrow>
   genAgents sc cs mf rs ! i = fst (genAgent sc cs mf rs i (drawsBefore sc cs mf rs i))"
  by (simp add: genAgents_map)

lemma foldl_plus: "foldl (\<lambda>sum a. sum + f a) (z::real) xs = z + sum_list (map f xs)"
  by (induction xs arbitrary: z) simp_all

lemma agents_calc:
  "SimulationData.agents (calculateSimulationData sc cs mf rs) = genAgents sc cs mf rs"
  by (simp add: calculateSimulationData_def Let_def)

lemma calc_consistent: "consistentData (calculateSimulationData sc cs mf rs)"
  by (simp add: consistentData_def calculateSimulationData_def Let_def foldl_plus mean_def
        popVariance_def length_genAgents o_def)

lemma exec_data:
  "\<exists>cs mf rs'. SimState.data s = calculateSimulationData sc cs mf rs' \<Longrightarrow>
   \<exists>cs mf rs'. SimState.data (exec sc c s) = calculateSimulationData sc cs mf rs'"
  by (cases c) (auto simp: onInterval_def handlePlayPause_def handleReset_def
        handleInjectFault_def Let_def)

lemma run_data:
  "\<exists>cs mf rs'. SimState.data s = calculateSimulationData sc cs mf rs' \<Longrightarrow>
   \<exists>cs mf rs'. SimState.data (run sc cmds s) = calculateSimulationData sc cs mf rs'"
  unfolding run_def
proof (induction cmds arbitrary: s)
  case Nil
  then show ?case by simp
next
  case (Cons c cmds)
  show ?case using Cons.IH [OF exec_data [OF Cons.prems]] by simp
qed

lemma run_init_data:
  "\<exists>cs mf rs'. SimState.data (run sc cmds (initSim sc rs)) = calculateSimulationData sc cs mf rs'"
  by (rule run_data) (auto simp: initSim_def)

lemma genAgent_alt:
  "genAgent sc cs mf rs i k =
     (if afterFault sc cs mf then
        if faultyNow sc cs i then
          (\<lparr>AgentData.ident = i, temperature = targetTemp + 5 + rs k * 3,
            fanSpeed = 0, power = 0, status = Faulty\<rparr>, k + 1)
        else if nearFault sc i then
          if cs < faultStep sc + 50 then
            (\<lparr>AgentData.ident = i, temperature = targetTemp - 0.5 - rs (k + 2),
              fanSpeed = 75 + rs k * 20, power = 500 + rs (k + 1) * 100,
              status = Compensating\<rparr>, k + 3)
          else
            (\<lparr>AgentData.ident = i, temperature = targetTemp + (rs (k + 2) - 0.5) * 0.5,
              fanSpeed = 55 + rs k * 10, power = 440 + rs (k + 1) * 20,
              status = Healthy\<rparr>, k + 3)
        else
          (\<lparr>AgentData.ident = i,
            temperature = targetTemp + (rs k - 0.5) * (if sc = vision then 0.2 else 1),
            fanSpeed = 50 + rs (k + 1) * 10, power = 430 + rs (k + 2) * 20,
            status = Healthy\<rparr>, k + 3)
      else
        (\<lparr>AgentData.ident = i,
          temperature = targetTemp + (rs k - 0.5) * (if sc = vision then 0.1 else 0.4),
          fanSpeed = 50 + rs (k + 1) * 5, power = 430 + rs (k + 2) * 10,
          status = Healthy\<rparr>, k + 3))"
  unfolding genAgent_def afterFault_def faultyNow_def nearFault_def by (rule refl)

lemma genAgent_before:
  "\<not> afterFault sc cs mf \<Longrightarrow>
   fst (genAgent sc cs mf rs i k) =
     \<lparr>AgentData.ident = i,
      temperature = 25 + (rs k - 0.5) * (if sc = vision then 0.1 else 0.4),
      fanSpeed = 50 + rs (k + 1) * 5, power = 430 + rs (k + 2) * 10, status = Healthy\<rparr>"
  by (simp add: genAgent_alt targetTemp_def)

lemma genAgent_faulty:
  "afterFault sc cs mf \<Longrightarrow> faultyNow sc cs i \<Longrightarrow>
   fst (genAgent sc cs mf rs i k) =
     \<lparr>AgentData.ident = i, temperature = 30 + rs k * 3, fanSpeed = 0, power = 0,
      status = Faulty\<rparr>"
  by (simp add: genAgent_alt targetTemp_def)

lemma genAgent_compensating:
  "afterFault sc cs mf \<Longrightarrow> \<not> faultyNow sc cs i \<Longrightarrow> nearFault sc i \<Longrightarrow>
   cs < faultStep sc + 50 \<Longrightarrow>
   fst (genAgent sc cs mf rs i k) =
     \<lparr>AgentData.ident = i, temperature = 25 - 0.5 - rs (k + 2),
      fanSpeed = 75 + rs k * 20, power = 500 + rs (k + 1) * 100, status = Compensating\<rparr>"
  by (simp add: genAgent_alt targetTemp_def)

lemma genAgent_recovered:
  "afterFault sc cs mf \<Longrightarrow> \<not> faultyNow sc cs i \<Longrightarrow> nearFault sc i \<Longrightarrow>
   \<not> cs < faultStep sc + 50 \<Longrightarrow>
   fst (genAgent sc cs mf rs i k) =
     \<lparr>AgentData.ident = i, temperature = 25 + (rs (k + 2) - 0.5) * 0.5,
      fanSpeed = 55 + rs k * 10, power = 440 + rs (k + 1) * 20, status = Healthy\<rparr>"
  by (simp add: genAgent_alt targetTemp_def)

lemma genAgent_other:
  "afterFault sc cs mf \<Longrightarrow> \<not> faultyNow sc cs i \<Longrightarrow> \<not> nearFault sc i \<Longrightarrow>
   fst (genAgent sc cs mf rs i k) =
     \<lparr>AgentData.ident = i,
      temperature = 25 + (rs k - 0.5) * (if sc = vision then 0.2 else 1),
      fanSpeed = 50 + rs (k + 1) * 10, power = 430 + rs (k + 2) * 20, status = Healthy\<rparr>"
  by (simp add: genAgent_alt targetTemp_def)

lemma genAgent_range:
  assumes "unit_draws rs"
  shows "inRangeData (fst (genAgent sc cs mf rs i k))"
proof -
  have a: "0 \<le> rs k" "rs k < 1" "0 \<le> rs (k + 1)" "rs (k + 1) < 1"
    "0 \<le> rs (k + 2)" "rs (k + 2) < 1"
    using assms by (simp_all add: unit_draws_def)
  consider (before) "\<not> afterFault sc cs mf"
    | (faulty) "afterFault sc cs mf" "faultyNow sc cs i"
    | (comp) "afterFault sc cs mf" "\<not> faultyNow sc cs i" "nearFault sc i"
        "cs < faultStep sc + 50"
    | (recov) "afterFault sc cs mf" "\<not> faultyNow sc cs i" "nearFault sc i"
        "\<not> cs < faultStep sc + 50"
    | (other) "afterFault sc cs mf" "\<not> faultyNow sc cs i" "\<not> nearFault sc i"
    by blast
  then show ?thesis
  proof cases
    case before
    show ?thesis unfolding genAgent_before [OF before] inRangeData_def
      using a by (simp add: field_simps)
  next
    case faulty
    show ?thesis unfolding genAgent_faulty [OF faulty] inRangeData_def
      using a by (simp add: field_simps)
  next
    case comp
    show ?thesis unfolding genAgent_compensating [OF comp] inRangeData_def
      using a by (simp add: field_simps)
  next
    case recov
    show ?thesis unfolding genAgent_recovered [OF recov] inRangeData_def
      using a by (simp add: field_simps)
  next
    case other
    show ?thesis unfolding genAgent_other [OF other] inRangeData_def
      using a by (simp add: field_simps)
  qed
qed

lemma genAgents_range:
  "unit_draws rs \<Longrightarrow> a \<in> set (genAgents sc cs mf rs) \<Longrightarrow> inRangeData a"
  by (auto simp: genAgents_map genAgent_range)

lemma ticks_count:
  "isPlaying s \<Longrightarrow> step s + n \<le> maxSteps sc \<Longrightarrow>
   step ((onInterval sc rs ^^ n) s) = step s + n \<and> isPlaying ((onInterval sc rs ^^ n) s)
   \<and> faultInjected ((onInterval sc rs ^^ n) s) = faultInjected s"
  by (induction n) (simp_all add: onInterval_def Let_def)

section \<open>Ring variant: the update keeps readings in range\<close>

lemma finiteIn_Num: "finiteIn lo hi (Num v) \<longleftrightarrow> lo \<le> v \<and> v \<le> hi"
  by (simp add: finiteIn_def)

lemma finiteInE: "finiteIn lo hi x \<Longrightarrow> \<exists>v. x = Num v \<and> lo \<le> v \<and> v \<le> hi"
  by (cases x) (simp_all add: finiteIn_def)

lemma posOrInf_cases: "posOrInf x \<Longrightarrow> (\<exists>v. x = Num v \<and> 0 < v) \<or> x = PInf"
  by (cases x) (simp_all add: posOrInf_def)

lemma nonnegOrInf_cases: "nonnegOrInf x \<Longrightarrow> (\<exists>v. x = Num v \<and> 0 \<le> v) \<or> x = PInf"
  by (cases x) (simp_all add: nonnegOrInf_def)

lemma jsadd_nonneg_pos: "nonnegOrInf x \<Longrightarrow> posOrInf y \<Longrightarrow> nonnegOrInf (jsadd x y)"
  by (cases x; cases y) (simp_all add: nonnegOrInf_def posOrInf_def)

lemma jsadd_pos_nonneg: "posOrInf x \<Longrightarrow> nonnegOrInf y \<Longrightarrow> posOrInf (jsadd x y)"
  by (cases x; cases y) (simp_all add: nonnegOrInf_def posOrInf_def)

lemma sum_loads_nonneg:
  "list_all (\<lambda>a. posOrInf (Agent.load a)) xs \<Longrightarrow> nonnegOrInf z \<Longrightarrow>
   nonnegOrInf (foldl (\<lambda>sum n. jsadd sum (Agent.load n)) z xs)"
  by (induction xs arbitrary: z) (simp_all add: jsadd_nonneg_pos)

lemma extraLoad_nonneg:
  "nonnegOrInf x \<Longrightarrow> nonnegOrInf (jsor (jsdiv x (Num (real k))) (Num 0))"
  by (cases x) (auto simp: nonnegOrInf_def jsor_def truthy_def infOfSign_def)

lemma targetFan_range: "\<exists>t. targetFan agent eff = Num t \<and> 25 \<le> t \<and> t \<le> 100"
  by (simp add: targetFan_def Let_def jsmin_def)

lemma newFan_range:
  assumes "0 \<le> f" "f \<le> 100" "25 \<le> t" "t \<le> (100::real)"
  shows "finiteIn 0 100 (jsadd (Num f) (jsmul (jssub (Num t) (Num f)) (Num 0.3)))"
  using assms by (simp add: finiteIn_def jssub_def field_simps)

lemma heating_pos: "posOrInf e \<Longrightarrow> posOrInf (jsmul (jsdiv e (Num 100)) HEATING_RATE)"
  by (cases e) (simp_all add: posOrInf_def HEATING_RATE_def infOfSign_def)

lemma newTemp_shape:
  "posOrInf h \<Longrightarrow> \<exists>v. jsadd (Num t) (jssub h (Num c)) = Num v \<or> jsadd (Num t) (jssub h (Num c)) = PInf"
  by (cases h) (simp_all add: posOrInf_def jssub_def)

lemma clamp_temp: "x = Num v \<or> x = PInf \<Longrightarrow> finiteIn 18 40 (jsmax (Num 18) (jsmin (Num 40) x))"
  by (auto simp: finiteIn_def jsmax_def jsmin_def)

lemma newLoad_pos:
  "posOrInf l \<Longrightarrow> posOrInf e \<Longrightarrow> posOrInf (if jsgt e l then jsmul e (Num 0.95) else l)"
  by (cases e) (simp_all add: posOrInf_def infOfSign_def)

lemma neighborLookup_ok:
  "list_all (\<lambda>j. j < length all) ids \<Longrightarrow>
   None \<notin> set (neighborLookup all ids)
   \<and> map the (neighborLookup all ids) = map (\<lambda>j. all ! j) ids"
  by (induction ids) (simp_all add: neighborLookup_def)


lemma updateAgent_failed:
  "healthStatus agent = failed \<Longrightarrow>
   updateAgent agent all =
     Inr (agent\<lparr>Agent.temperature :=
                  jsmin (jsadd (Agent.temperature agent) (Num 0.6)) (Num 40),
                Agent.fanSpeed := Num 0\<rparr>)"
  by (simp add: updateAgent_def HEATING_RATE_def)

lemma failed_temp: "finiteIn 18 40 x \<Longrightarrow> finiteIn 18 40 (jsmin (jsadd x (Num 0.6)) (Num 40))"
  by (cases x) (auto simp: finiteIn_def jsmin_def)

lemma updateAgent_live:
  assumes "healthStatus agent \<noteq> failed"
    and "None \<notin> set (neighborLookup all (Agent.neighbors agent))"
    and "nb = map the (neighborLookup all (Agent.neighbors agent))"
    and "eff = effLoad agent nb"
  shows "\<exists>st h c. updateAgent agent all =
      Inr (agent\<lparr>Agent.temperature := jsmax (Num 18) (jsmin (Num 40) (tempOf agent eff)),
                 Agent.fanSpeed := fanOf agent eff, healthStatus := st,
                 Agent.load := (if jsgt eff (Agent.load agent) then jsmul eff (Num 0.95)
                                else Agent.load agent),
                 isHealing := h, communicating := c\<rparr>) \<and> st \<noteq> failed"
  unfolding updateAgent_def Let_def assms(3,4) effLoad_def fanOf_def tempOf_def
  using assms(1,2)
  apply (simp only: if_False)
  apply (intro exI conjI)
   apply (rule refl)
  apply simp
  done

lemma updateAgent_ok:
  assumes a: "ringAgentOK n agent" and len: "length all = n"
    and all: "list_all (ringAgentOK n) all"
  shows "\<exists>a'. updateAgent agent all = Inr a' \<and> ringAgentOK n a'
              \<and> Agent.ident a' = Agent.ident agent"
proof (cases "healthStatus agent = failed")
  case True
  show ?thesis
    using a failed_temp [of "Agent.temperature agent"]
    by (simp add: updateAgent_failed [OF True] ringAgentOK_def finiteIn_Num)
next
  case False
  define nb where "nb = map the (neighborLookup all (Agent.neighbors agent))"
  define fl where "fl = filter (\<lambda>n. healthStatus n = failed) nb"
  define eff where "eff = effLoad agent nb"
  have ids: "list_all (\<lambda>j. j < length all) (Agent.neighbors agent)"
    using a len by (simp add: ringAgentOK_def)
  note lk = neighborLookup_ok [OF ids]
  have nb_all: "set nb \<subseteq> set all"
    using ids unfolding nb_def conjunct2 [OF lk] by (auto simp: list_all_iff)
  have "list_all (\<lambda>a. posOrInf (Agent.load a)) fl"
    using nb_all all unfolding fl_def by (auto simp: list_all_iff ringAgentOK_def)
  then have "nonnegOrInf (foldl (\<lambda>sum n. jsadd sum (Agent.load n)) (Num 0) fl)"
    by (rule sum_loads_nonneg) (simp add: nonnegOrInf_def)
  then have eff_pos: "posOrInf eff"
    unfolding eff_def effLoad_def fl_def [symmetric] using a
    by (intro jsadd_pos_nonneg extraLoad_nonneg) (simp_all add: ringAgentOK_def)
  obtain t where t: "Agent.temperature agent = Num t" "18 \<le> t" "t \<le> 40"
    using a finiteInE unfolding ringAgentOK_def by blast
  obtain f where f: "Agent.fanSpeed agent = Num f" "0 \<le> f" "f \<le> 100"
    using a finiteInE unfolding ringAgentOK_def by blast
  obtain tf where tf: "targetFan agent eff = Num tf" "25 \<le> tf" "tf \<le> 100"
    using targetFan_range by blast
  define nf where "nf = fanOf agent eff"
  have nf_in: "finiteIn 0 100 nf"
    unfolding nf_def fanOf_def f tf using newFan_range [OF f(2,3) tf(2,3)] .
  then obtain nfv where nfv: "nf = Num nfv" using finiteInE by blast
  define newTemp where "newTemp = tempOf agent eff"
  have cool: "jsmul (jsdiv nf (Num 100)) COOLING_RATE = Num (nfv / 100 * 0.5)"
    by (simp add: nfv COOLING_RATE_def)
  have "\<exists>v. newTemp = Num v \<or> newTemp = PInf"
    unfolding newTemp_def tempOf_def nf_def [symmetric] cool t
    by (rule newTemp_shape [OF heating_pos [OF eff_pos]])
  then have temp_in: "finiteIn 18 40 (jsmax (Num 18) (jsmin (Num 40) newTemp))"
    using clamp_temp by blast
  have load_in: "posOrInf (if jsgt eff (Agent.load agent) then jsmul eff (Num 0.95)
                           else Agent.load agent)"
    using a eff_pos by (intro newLoad_pos) (simp_all add: ringAgentOK_def)
  have "None \<notin> set (neighborLookup all (Agent.neighbors agent))"
    using lk by simp
  from updateAgent_live [OF False this nb_def eff_def]
  obtain st h c where "updateAgent agent all =
      Inr (agent\<lparr>Agent.temperature := jsmax (Num 18) (jsmin (Num 40) newTemp),
                 Agent.fanSpeed := nf, healthStatus := st,
                 Agent.load := (if jsgt eff (Agent.load agent) then jsmul eff (Num 0.95)
                                else Agent.load agent),
                 isHealing := h, communicating := c\<rparr>)" "st \<noteq> failed"
    unfolding newTemp_def nf_def by blast
  then show ?thesis
    using temp_in nf_in load_in a by (simp add: ringAgentOK_def)
qed


lemma mapE_Inr:
  "(\<And>x. x \<in> set xs \<Longrightarrow> \<exists>y. f x = Inr y) \<Longrightarrow> mapE f xs = Inr (map (\<lambda>x. projr (f x)) xs)"
proof (induction xs)
  case Nil
  show ?case by simp
next
  case (Cons x xs)
  obtain y where y: "f x = Inr y" using Cons.prems by auto
  have "mapE f xs = Inr (map (\<lambda>x. projr (f x)) xs)"
    by (rule Cons.IH) (simp add: Cons.prems)
  then show ?case by (simp add: y)
qed

lemma simulationStep_ok:
  assumes "ringInv n s"
  shows "\<exists>s'. simulationStep s = Inr s' \<and> ringInv n s' \<and> time s' = time s + 1
               \<and> isRunning s' = isRunning s
               \<and> RingState.agents s' =
                   map (\<lambda>a. projr (updateAgent a (RingState.agents s))) (RingState.agents s)"
proof -
  have len: "length (RingState.agents s) = n"
    and all: "list_all (ringAgentOK n) (RingState.agents s)"
    using assms by (simp_all add: ringInv_def)
  have each: "\<exists>a'. updateAgent a (RingState.agents s) = Inr a' \<and> ringAgentOK n a'
                   \<and> Agent.ident a' = Agent.ident a"
    if "a \<in> set (RingState.agents s)" for a
    using updateAgent_ok [OF _ len all, of a] that all by (simp add: list_all_iff)
  have m: "mapE (\<lambda>agent. updateAgent agent (RingState.agents s)) (RingState.agents s)
            = Inr (map (\<lambda>a. projr (updateAgent a (RingState.agents s))) (RingState.agents s))"
    by (rule mapE_Inr) (use each in blast)
  have ok: "list_all (ringAgentOK n)
              (map (\<lambda>a. projr (updateAgent a (RingState.agents s))) (RingState.agents s))"
    using each by (fastforce simp: list_all_iff)
  show ?thesis
    by (simp add: simulationStep_def m ringInv_def len ok)
qed

lemma initialAgent_ok:
  assumes "unit_draws rs" "i < nat count"
  shows "ringAgentOK (nat count) (initialAgent count rs i)"
proof -
  have r: "0 \<le> rs (2 * i)" "rs (2 * i) < 1" "0 \<le> rs (2 * i + 1)" "rs (2 * i + 1) < 1"
    using assms(1) by (simp_all add: unit_draws_def)
  have c: "0 < count" using assms(2) by simp
  have "(int i - 1 + count) mod count < count" "(int i + 1) mod count < count"
    "0 \<le> (int i - 1 + count) mod count" "0 \<le> (int i + 1) mod count"
    using c by simp_all
  then have n: "nat ((int i - 1 + count) mod count) < nat count"
    "nat ((int i + 1) mod count) < nat count"
    by linarith+
  show ?thesis
    using r n
    by (simp add: ringAgentOK_def initialAgent_def INITIAL_TEMP_def jssub_def finiteIn_Num
        posOrInf_def field_simps)
qed

lemma createInitialAgents_ok:
  "unit_draws rs \<Longrightarrow> list_all (ringAgentOK (nat count)) (createInitialAgents count rs)"
  by (simp add: createInitialAgents_def list_all_iff initialAgent_ok)

lemma length_createInitialAgents: "length (createInitialAgents count rs) = nat count"
  by (simp add: createInitialAgents_def)

lemma initRing_inv: "unit_draws rs \<Longrightarrow> ringInv (nat count) (initRing count rs)"
  by (simp add: ringInv_def initRing_def createInitialAgents_ok length_createInitialAgents)

lemma execRing_ok:
  assumes "ringInv (nat count) s" "ringDrawsOK c"
  shows "\<exists>s'. execRing count c s = Inr s' \<and> ringInv (nat count) s'"
proof (cases c)
  case Step
  then show ?thesis using simulationStep_ok [OF assms(1)] assms(1) by auto
next
  case Toggle
  then show ?thesis using assms(1) by (simp add: toggleSimulation_def ringInv_def)
next
  case (ResetSim rs)
  then show ?thesis
    using assms(2)
    by (simp add: resetSimulation_def ringInv_def createInitialAgents_ok
        length_createInitialAgents)
next
  case (TriggerFailure i)
  then show ?thesis
    using assms(1)
    by (auto simp: triggerFailure_def ringInv_def list_all_iff ringAgentOK_def finiteIn_Num)
next
  case (RepairAgent i)
  then show ?thesis
    using assms(1)
    by (auto simp: repairAgent_def ringInv_def list_all_iff ringAgentOK_def)
qed

lemma runRing_ok:
  "ringInv (nat count) s \<Longrightarrow> list_all ringDrawsOK cmds \<Longrightarrow>
   \<exists>s'. runRing count cmds s = Inr s' \<and> ringInv (nat count) s'"
proof (induction cmds arbitrary: s)
  case Nil
  then show ?case by simp
next
  case (Cons c cmds)
  from Cons.prems obtain s1 where s1: "execRing count c s = Inr s1" "ringInv (nat count) s1"
    using execRing_ok [of count s c] by auto
  show ?case using Cons.IH [OF s1(2)] Cons.prems(2) by (simp add: s1(1))
qed

section \<open>Ring variant: topology, creation, failed neighbours\<close>

lemma prev_mod:
  "0 \<le> i \<Longrightarrow> i < N \<Longrightarrow> (i - 1 + N) mod N = (if i = 0 then N - 1 else i - (1::int))"
  by (simp add: mod_pos_pos_trivial zmod_minus1)

lemma next_mod:
  "0 \<le> i \<Longrightarrow> i < N \<Longrightarrow> (i + 1) mod N = (if i + 1 = N then 0 else i + (1::int))"
  by (simp add: mod_pos_pos_trivial)

lemma nth_createInitialAgents:
  "i < nat N \<Longrightarrow> createInitialAgents N rs ! i = initialAgent N rs i"
  by (simp add: createInitialAgents_def)

lemma neighbors_initial:
  "Agent.neighbors (initialAgent N rs i) =
     [nat ((int i - 1 + N) mod N), nat ((int i + 1) mod N)]"
  by (simp add: initialAgent_def)

lemma ring_symmetric:
  assumes "i < nat N" "j < nat N"
  shows "j \<in> set (Agent.neighbors (initialAgent N rs i))
         \<longleftrightarrow> i \<in> set (Agent.neighbors (initialAgent N rs j))"
proof -
  have i: "0 \<le> int i" "int i < N" and j: "0 \<le> int j" "int j < N"
    using assms by simp_all
  show ?thesis
    unfolding neighbors_initial prev_mod [OF i] next_mod [OF i] prev_mod [OF j] next_mod [OF j]
    using i j by (auto split: if_splits)
qed

lemma ring_no_self:
  assumes "i < nat N" "2 \<le> N"
  shows "i \<notin> set (Agent.neighbors (initialAgent N rs i))"
proof -
  have i: "0 \<le> int i" "int i < N" using assms by simp_all
  show ?thesis
    unfolding neighbors_initial prev_mod [OF i] next_mod [OF i]
    using i assms(2) by (auto split: if_splits)
qed

text \<open>
  C6 (amended). For every count \<open>N \<ge> 1\<close>, agent \<open>i\<close> of the created ring has the neighbour
  list \<open>[(i - 1 + N) mod N, (i + 1) mod N]\<close> and neighbourhood is symmetric. No agent is its
  own neighbour when \<open>N \<ge> 2\<close>; for \<open>N = 1\<close> the single agent has the neighbour list
  \<open>[0, 0]\<close>, that is, itself twice.
\<close>

theorem ring_topology:
  assumes "1 \<le> N" "i < nat N" "j < nat N"
  shows "Agent.neighbors (createInitialAgents N rs ! i)
           = [nat ((int i - 1 + N) mod N), nat ((int i + 1) mod N)]
       \<and> (j \<in> set (Agent.neighbors (createInitialAgents N rs ! i))
            \<longleftrightarrow> i \<in> set (Agent.neighbors (createInitialAgents N rs ! j)))
       \<and> (2 \<le> N \<longrightarrow> i \<notin> set (Agent.neighbors (createInitialAgents N rs ! i)))
       \<and> (N = 1 \<longrightarrow> Agent.neighbors (createInitialAgents N rs ! i) = [i, i])"
  using assms ring_symmetric [OF assms(2,3), of rs] ring_no_self [OF assms(2), of rs]
  by (auto simp: nth_createInitialAgents neighbors_initial)

theorem ring_topology_witness:
  "(1::int) \<le> 5 \<and> (0::nat) < nat 5 \<and> (1::nat) < nat 5
   \<and> Agent.neighbors (createInitialAgents 5 (\<lambda>k. 0) ! 0) = [4, 1]
   \<and> 1 \<in> set (Agent.neighbors (createInitialAgents 5 (\<lambda>k. 0) ! 0))
   \<and> 0 \<in> set (Agent.neighbors (createInitialAgents 5 (\<lambda>k. 0) ! 1))
   \<and> 0 \<notin> set (Agent.neighbors (createInitialAgents 5 (\<lambda>k. 0) ! 0))
   \<and> Agent.neighbors (createInitialAgents 1 (\<lambda>k. 0) ! 0) = [0, 0]"
  using ring_topology [of 5 0 1 "\<lambda>k. 0"] ring_topology [of 1 0 0 "\<lambda>k. 0"]
  by auto

text \<open>
  C6 as stated fails for \<open>N = 1\<close>: the only agent lists its own id among its neighbours.
\<close>

theorem self_neighbor_counterexample:
  "(1::int) \<le> 1 \<and> 0 \<in> set (Agent.neighbors (createInitialAgents 1 (\<lambda>k. 0) ! 0))"
  by (simp add: createInitialAgents_def initialAgent_def)

text \<open>
  C8 (amended). Creation never fails: for every count it returns a population of \<open>nat count\<close>
  agents, which is empty exactly when the count is below 1, and the hook starts from it.
\<close>

theorem create_never_fails:
  "length (createInitialAgents count rs) = nat count
   \<and> (createInitialAgents count rs = [] \<longleftrightarrow> count < 1)
   \<and> RingState.agents (initRing count rs) = createInitialAgents count rs"
  by (auto simp: createInitialAgents_def initRing_def)

text \<open>
  C8 as stated fails: with a count of 0 (or a negative one) creation returns the empty
  population and the hook state exists; no error is raised.
\<close>

theorem create_zero_counterexample:
  "(0::int) < 1 \<and> createInitialAgents 0 (\<lambda>k. 0) = []
   \<and> RingState.agents (initRing 0 (\<lambda>k. 0)) = []
   \<and> createInitialAgents (- 3) (\<lambda>k. 0) = []"
  by (simp add: createInitialAgents_def initRing_def)

lemma nth_triggered:
  "k < nat N \<Longrightarrow>
   RingState.agents (triggerFailure p (triggerFailure q (initRing N rs))) ! k =
     (if k = p \<or> k = q
      then (initialAgent N rs k)\<lparr>healthStatus := failed, Agent.fanSpeed := Num 0\<rparr>
      else initialAgent N rs k)"
  by (simp add: triggerFailure_def initRing_def createInitialAgents_def initialAgent_def)

lemma length_triggered:
  "length (RingState.agents (triggerFailure p (triggerFailure q (initRing N rs)))) = nat N"
  by (simp add: triggerFailure_def initRing_def createInitialAgents_def)

lemma initial_load:
  "unit_draws rs \<Longrightarrow>
   \<exists>l. Agent.load (initialAgent N rs k) = Num l \<and> 25 \<le> l \<and> l < 75"
  using unit_draws_def [of rs] by (simp add: initialAgent_def)

lemma surrounded_effLoad:
  assumes "healthStatus a = failed" "healthStatus b = failed"
    and "Agent.load a = Num la" "Agent.load b = Num lb" "0 < la" "0 < lb"
    and "Agent.load agent = Num l"
  shows "effLoad agent [a, b] = PInf"
  using assms by (simp add: effLoad_def infOfSign_def jsor_def truthy_def)

text \<open>
  C10. In a ring of \<open>N \<ge> 2\<close> freshly created agents, after \<^verbatim>\<open>triggerFailure\<close> on both ring
  neighbours of agent \<open>i\<close>, agent \<open>i\<close> is still healthy and the next simulation step runs
  and leaves it with an infinite load: the sum of the failed neighbours' positive loads is
  divided by zero healthy neighbours.
\<close>

theorem both_neighbors_failed:
  assumes rs: "unit_draws rs" and N: "2 \<le> N" and i: "i < nat N"
  shows "\<exists>s2. simulationStep
            (triggerFailure (nat ((int i - 1 + N) mod N))
              (triggerFailure (nat ((int i + 1) mod N)) (initRing N rs))) = Inr s2
          \<and> healthStatus (RingState.agents
               (triggerFailure (nat ((int i - 1 + N) mod N))
                 (triggerFailure (nat ((int i + 1) mod N)) (initRing N rs))) ! i) = healthy
          \<and> Agent.load (RingState.agents s2 ! i) = PInf"
proof -
  define p where "p = nat ((int i - 1 + N) mod N)"
  define q where "q = nat ((int i + 1) mod N)"
  define s1 where "s1 = triggerFailure p (triggerFailure q (initRing N rs))"
  define all where "all = RingState.agents s1"
  have len: "length all = nat N"
    unfolding all_def s1_def by (rule length_triggered)
  have Npos: "0 < N" using N by simp
  have pq: "p < nat N" "q < nat N"
    unfolding p_def q_def using Npos by (simp_all add: nat_less_iff)
  have "i \<notin> set [p, q]"
    using ring_no_self [OF i N, of rs] unfolding neighbors_initial p_def q_def .
  then have ne: "i \<noteq> p" "i \<noteq> q" by simp_all
  have ai: "all ! i = initialAgent N rs i"
    unfolding all_def s1_def using ne by (simp add: nth_triggered [OF i])
  have ap: "all ! p = (initialAgent N rs p)\<lparr>healthStatus := failed, Agent.fanSpeed := Num 0\<rparr>"
    unfolding all_def s1_def by (simp add: nth_triggered [OF pq(1)])
  have aq: "all ! q = (initialAgent N rs q)\<lparr>healthStatus := failed, Agent.fanSpeed := Num 0\<rparr>"
    unfolding all_def s1_def by (simp add: nth_triggered [OF pq(2)])
  obtain lp where lp: "Agent.load (initialAgent N rs p) = Num lp" "25 \<le> lp"
    using initial_load [OF rs] by blast
  obtain lq where lq: "Agent.load (initialAgent N rs q) = Num lq" "25 \<le> lq"
    using initial_load [OF rs] by blast
  obtain li where li: "Agent.load (initialAgent N rs i) = Num li" "25 \<le> li"
    using initial_load [OF rs] by blast
  have st: "healthStatus (all ! i) = healthy"
    by (simp add: ai initialAgent_def)
  have nbs: "Agent.neighbors (all ! i) = [p, q]"
    by (simp add: ai neighbors_initial p_def q_def)
  have look: "neighborLookup all (Agent.neighbors (all ! i)) = [Some (all ! p), Some (all ! q)]"
    by (simp add: nbs neighborLookup_def len pq)
  have eff: "effLoad (all ! i) [all ! p, all ! q] = PInf"
    by (rule surrounded_effLoad [where la = lp and lb = lq and l = li])
      (use lp lq li in \<open>simp_all add: ap aq ai\<close>)
  have live: "healthStatus (all ! i) \<noteq> failed"
    "None \<notin> set (neighborLookup all (Agent.neighbors (all ! i)))"
    "[all ! p, all ! q] = map the (neighborLookup all (Agent.neighbors (all ! i)))"
    "PInf = effLoad (all ! i) [all ! p, all ! q]"
    by (simp_all add: st look eff)
  from updateAgent_live [OF live] obtain a' where
    "updateAgent (all ! i) all = Inr a'"
    "Agent.load a' = (if jsgt PInf (Agent.load (all ! i)) then jsmul PInf (Num 0.95)
                      else Agent.load (all ! i))"
    by force
  then have upd: "Agent.load (projr (updateAgent (all ! i) all)) = PInf"
    by (simp add: ai li jsgt_def infOfSign_def)
  have inv: "ringInv (nat N) s1"
  proof -
    have "\<exists>s'. runRing N [TriggerFailure q, TriggerFailure p] (initRing N rs) = Inr s'
              \<and> ringInv (nat N) s'"
      by (rule runRing_ok [OF initRing_inv [OF rs]]) simp
    then show ?thesis by (simp add: s1_def)
  qed
  from simulationStep_ok [OF inv] obtain s2 where s2: "simulationStep s1 = Inr s2"
    "RingState.agents s2 = map (\<lambda>a. projr (updateAgent a all)) all"
    unfolding all_def by blast
  have "Agent.load (RingState.agents s2 ! i) = PInf"
    using i len upd by (simp add: s2(2))
  then show ?thesis
    using s2(1) st unfolding s1_def all_def p_def q_def by blast
qed

theorem both_neighbors_failed_witness:
  "(2::int) \<le> 3 \<and> (1::nat) < nat 3
   \<and> map_sum id (\<lambda>s. Agent.load (RingState.agents s ! 1))
       (simulationStep (triggerFailure 0 (triggerFailure 2 (initRing 3 (\<lambda>k. 1 / 2)))))
     = Inr PInf"
proof -
  have u: "unit_draws (\<lambda>k. 1 / 2)" by (simp add: unit_draws_def)
  show ?thesis
    using both_neighbors_failed [OF u, of 3 1] by auto
qed

section \<open>Tick-counter variant: phase labels, fault injection, tick counter\<close>

lemma phase_calc:
  "phase (calculateSimulationData sc n mf rs) = fst (phaseOf sc n mf)"
  by (simp add: calculateSimulationData_def Let_def)

text \<open>
  C4. In the prototype scenario the fault tick is 50, and without a manual fault the phase
  computed at tick 49 is the stable label, at tick 50 the fault-detected label, at tick 75
  the self-healing label and at tick 150 the stabilized label, whatever the random draws.
\<close>

theorem phase_labeling:
  "faultStep prototype = 50
   \<and> phase (calculateSimulationData prototype 49 False rs) = ''Stable Operation''
   \<and> phase (calculateSimulationData prototype 50 False rs) = ''Fault Detected''
   \<and> phase (calculateSimulationData prototype 75 False rs) = ''Self-Healing Response''
   \<and> phase (calculateSimulationData prototype 150 False rs) = ''System Stabilized''"
  by (simp add: phase_calc phaseOf_def faultStep_def)

text \<open>
  C9 (amended). While playing, the interval callback moves the tick from \<open>t\<close> to \<open>t + 1\<close> when
  \<open>t\<close> is below the maximum and back to 0 when it has reached the maximum; while paused it
  changes nothing. Play/pause keeps the tick, and an injection (on the handler of the latest
  render) sets the tick to the fault tick unless the latch is already set.
\<close>

theorem tick_progress:
  "(isPlaying s \<and> step s < maxSteps sc \<longrightarrow> step (onInterval sc rs s) = step s + 1)
   \<and> (isPlaying s \<and> maxSteps sc \<le> step s \<longrightarrow> step (onInterval sc rs s) = 0)
   \<and> (\<not> isPlaying s \<longrightarrow> onInterval sc rs s = s)
   \<and> step (handlePlayPause s) = step s
   \<and> step (handleInjectFault sc (faultInjected s) rs s)
       = (if faultInjected s then step s else faultStep sc)"
  by (simp add: onInterval_def Let_def handlePlayPause_def handleInjectFault_def)

theorem tick_progress_witness:
  "isPlaying (handlePlayPause (initSim prototype (\<lambda>k. 0)))
   \<and> step (handlePlayPause (initSim prototype (\<lambda>k. 0))) < maxSteps prototype
   \<and> step (onInterval prototype (\<lambda>k. 0) (handlePlayPause (initSim prototype (\<lambda>k. 0)))) = 1
   \<and> isPlaying ((onInterval prototype (\<lambda>k. 0) ^^ 200) (handlePlayPause (initSim prototype (\<lambda>k. 0))))
   \<and> maxSteps prototype
       \<le> step ((onInterval prototype (\<lambda>k. 0) ^^ 200) (handlePlayPause (initSim prototype (\<lambda>k. 0))))
   \<and> step (onInterval prototype (\<lambda>k. 0)
        ((onInterval prototype (\<lambda>k. 0) ^^ 200) (handlePlayPause (initSim prototype (\<lambda>k. 0))))) = 0
   \<and> \<not> isPlaying (initSim prototype (\<lambda>k. 0))
   \<and> onInterval prototype (\<lambda>k. 0) (initSim prototype (\<lambda>k. 0)) = initSim prototype (\<lambda>k. 0)"
proof -
  define s0 where "s0 = handlePlayPause (initSim prototype (\<lambda>k. 0))"
  have p: "isPlaying s0" "step s0 = 0" "\<not> isPlaying (initSim prototype (\<lambda>k. 0))"
    by (simp_all add: s0_def handlePlayPause_def initSim_def)
  have m: "maxSteps prototype = 200" by (simp add: maxSteps_def)
  have t: "step ((onInterval prototype (\<lambda>k. 0) ^^ 200) s0) = 200"
    "isPlaying ((onInterval prototype (\<lambda>k. 0) ^^ 200) s0)"
    using ticks_count [of s0 200 prototype "\<lambda>k. 0"] p m by simp_all
  show ?thesis
    using tick_progress [of s0 prototype "\<lambda>k. 0"]
      tick_progress [of "(onInterval prototype (\<lambda>k. 0) ^^ 200) s0" prototype "\<lambda>k. 0"]
      tick_progress [of "initSim prototype (\<lambda>k. 0)" prototype "\<lambda>k. 0"]
      p m t
    unfolding s0_def [symmetric] by simp
qed

text \<open>
  C9 as stated fails. In the prototype scenario the tick is 200 after 200 steps and the next
  step, still running, takes it back to 0. After 51 steps the tick is 51 with the latch
  unset, and an injection takes it back to 50.
\<close>

theorem tick_wraps_counterexample:
  "isPlaying ((onInterval prototype (\<lambda>k. 0) ^^ 200) (handlePlayPause (initSim prototype (\<lambda>k. 0))))
   \<and> step ((onInterval prototype (\<lambda>k. 0) ^^ 200) (handlePlayPause (initSim prototype (\<lambda>k. 0))))
       = 200
   \<and> step (onInterval prototype (\<lambda>k. 0)
        ((onInterval prototype (\<lambda>k. 0) ^^ 200) (handlePlayPause (initSim prototype (\<lambda>k. 0))))) = 0
   \<and> step ((onInterval prototype (\<lambda>k. 0) ^^ 51) (handlePlayPause (initSim prototype (\<lambda>k. 0))))
       = 51
   \<and> faultInjected
        ((onInterval prototype (\<lambda>k. 0) ^^ 51) (handlePlayPause (initSim prototype (\<lambda>k. 0))))
       = False
   \<and> step (handleInjectFault prototype False (\<lambda>k. 0)
        ((onInterval prototype (\<lambda>k. 0) ^^ 51) (handlePlayPause (initSim prototype (\<lambda>k. 0))))) = 50"
proof -
  define s0 where "s0 = handlePlayPause (initSim prototype (\<lambda>k. 0))"
  have p: "isPlaying s0" "step s0 = 0" "\<not> faultInjected s0"
    by (simp_all add: s0_def handlePlayPause_def initSim_def)
  have m: "maxSteps prototype = 200" by (simp add: maxSteps_def)
  have t: "step ((onInterval prototype (\<lambda>k. 0) ^^ 200) s0) = 200"
    "isPlaying ((onInterval prototype (\<lambda>k. 0) ^^ 200) s0)"
    using ticks_count [of s0 200 prototype "\<lambda>k. 0"] p m by simp_all
  have u: "step ((onInterval prototype (\<lambda>k. 0) ^^ 51) s0) = 51"
    "\<not> faultInjected ((onInterval prototype (\<lambda>k. 0) ^^ 51) s0)"
    using ticks_count [of s0 51 prototype "\<lambda>k. 0"] p m by simp_all
  show ?thesis
    unfolding s0_def [symmetric]
    using t u m by (simp add: onInterval_def Let_def handleInjectFault_def faultStep_def)
qed

section \<open>Failed agents\<close>

lemma failed_step:
  assumes inv: "ringInv n s" and i: "i < n"
    and f: "healthStatus (RingState.agents s ! i) = failed"
    and t: "Agent.temperature (RingState.agents s ! i) = Num t"
  shows "\<exists>s'. simulationStep s = Inr s' \<and> ringInv n s' \<and> isRunning s' = isRunning s
          \<and> RingState.agents s' ! i =
               (RingState.agents s ! i)\<lparr>Agent.temperature := Num (min (t + 0.6) 40),
                                          Agent.fanSpeed := Num 0\<rparr>"
proof -
  from simulationStep_ok [OF inv] obtain s' where s': "simulationStep s = Inr s'"
    "ringInv n s'" "isRunning s' = isRunning s"
    "RingState.agents s' =
       map (\<lambda>a. projr (updateAgent a (RingState.agents s))) (RingState.agents s)"
    by blast
  have len: "length (RingState.agents s) = n" using inv by (simp add: ringInv_def)
  have "RingState.agents s' ! i =
          projr (updateAgent (RingState.agents s ! i) (RingState.agents s))"
    using i len by (simp add: s'(4))
  also have "\<dots> = (RingState.agents s ! i)\<lparr>Agent.temperature := Num (min (t + 0.6) 40),
                                          Agent.fanSpeed := Num 0\<rparr>"
    by (simp add: updateAgent_failed [OF f] t jsmin_def min_def)
  finally show ?thesis using s'(1,2,3) by blast
qed

lemma failed_steps:
  assumes i: "i < nat N"
  shows "ringInv (nat N) s \<Longrightarrow> isRunning s \<Longrightarrow>
    healthStatus (RingState.agents s ! i) = failed \<Longrightarrow>
    Agent.temperature (RingState.agents s ! i) = Num t \<Longrightarrow>
    \<exists>s'. runRing N (replicate k Step) s = Inr s' \<and> ringInv (nat N) s' \<and> isRunning s'
        \<and> RingState.agents s' ! i =
             (RingState.agents s ! i)\<lparr>Agent.temperature := Num (min (t + 0.6 * real k) 40)\<rparr>"
proof (induction k arbitrary: s t)
  case 0
  have "ringAgentOK (nat N) (RingState.agents s ! i)"
    using "0.prems"(1) i by (simp add: ringInv_def list_all_length)
  then have "t \<le> 40" using "0.prems"(4) by (simp add: ringAgentOK_def finiteIn_Num)
  then show ?case using 0 by simp
next
  case (Suc k)
  have ok: "ringAgentOK (nat N) (RingState.agents s ! i)"
    using Suc.prems(1) i by (simp add: ringInv_def list_all_length)
  then have fan: "Agent.fanSpeed (RingState.agents s ! i) = Num 0"
    using Suc.prems(3) by (simp add: ringAgentOK_def)
  from failed_step [OF Suc.prems(1) i Suc.prems(3,4)] obtain s1 where s1:
    "simulationStep s = Inr s1" "ringInv (nat N) s1" "isRunning s1 = isRunning s"
    "RingState.agents s1 ! i =
       (RingState.agents s ! i)\<lparr>Agent.temperature := Num (min (t + 0.6) 40),
                                  Agent.fanSpeed := Num 0\<rparr>"
    by blast
  have s1': "RingState.agents s1 ! i =
       (RingState.agents s ! i)\<lparr>Agent.temperature := Num (min (t + 0.6) 40)\<rparr>"
    using s1(4) fan [symmetric] by simp
  have r: "isRunning s1" using s1(3) Suc.prems(2) by simp
  have f1: "healthStatus (RingState.agents s1 ! i) = failed"
    and t1: "Agent.temperature (RingState.agents s1 ! i) = Num (min (t + 0.6) 40)"
    using Suc.prems(3) by (simp_all add: s1')
  from Suc.IH [OF s1(2) r f1 t1] obtain s' where s':
    "runRing N (replicate k Step) s1 = Inr s'" "ringInv (nat N) s'" "isRunning s'"
    "RingState.agents s' ! i =
       (RingState.agents s1 ! i)\<lparr>Agent.temperature :=
          Num (min (min (t + 0.6) 40 + 0.6 * real k) 40)\<rparr>"
    by blast
  have "min (min (t + 0.6) 40 + 0.6 * real k) 40 = min (t + 0.6 * real (Suc k)) (40::real)"
    by (simp add: min_def field_simps)
  then have "RingState.agents s' ! i =
       (RingState.agents s ! i)\<lparr>Agent.temperature := Num (min (t + 0.6 * real (Suc k)) 40)\<rparr>"
    using s'(4) by (simp add: s1')
  then show ?case
    using s'(1,2,3) Suc.prems(2) by (simp add: s1(1))
qed

lemma isFaulty_index: "isFaultyAgent sc j \<Longrightarrow> j < numAgents sc"
  by (auto simp: isFaultyAgent_def numAgents_def split: if_splits)

lemma faulty_reading:
  assumes "isFaultyAgent sc j" "faultStep sc \<le> cs \<or> mf" "cs < faultStep sc + 100"
  shows "SimulationData.agents (calculateSimulationData sc cs mf rs) ! j =
          \<lparr>AgentData.ident = j,
           temperature = 30 + rs (drawsBefore sc cs mf rs j) * 3,
           fanSpeed = 0, power = 0, status = Faulty\<rparr>"
  using assms
  by (simp add: agents_calc nth_genAgents isFaulty_index genAgent_faulty afterFault_def
      faultyNow_def)

lemma onInterval_data:
  "isPlaying s \<Longrightarrow> step s < maxSteps sc \<Longrightarrow>
   SimState.data (onInterval sc rs s)
     = calculateSimulationData sc (step s + 1) (faultInjected s) rs
   \<and> step (onInterval sc rs s) = step s + 1 \<and> isPlaying (onInterval sc rs s)
   \<and> faultInjected (onInterval sc rs s) = faultInjected s"
  by (simp add: onInterval_def Let_def)

lemma faulty_tick_example:
  "AgentData.status (SimulationData.agents (SimState.data
      (onInterval prototype (\<lambda>k. 9 / 10)
        ((onInterval prototype (\<lambda>k. 0) ^^ 50) (handlePlayPause (initSim prototype (\<lambda>k. 0)))))) ! 5)
     = Faulty
   \<and> AgentData.temperature (SimulationData.agents (SimState.data
      (onInterval prototype (\<lambda>k. 9 / 10)
        ((onInterval prototype (\<lambda>k. 0) ^^ 50) (handlePlayPause (initSim prototype (\<lambda>k. 0)))))) ! 5)
     = 327 / 10
   \<and> AgentData.status (SimulationData.agents (SimState.data
      (onInterval prototype (\<lambda>k. 1 / 10) (onInterval prototype (\<lambda>k. 9 / 10)
        ((onInterval prototype (\<lambda>k. 0) ^^ 50) (handlePlayPause (initSim prototype (\<lambda>k. 0))))))) ! 5)
     = Faulty
   \<and> AgentData.temperature (SimulationData.agents (SimState.data
      (onInterval prototype (\<lambda>k. 1 / 10) (onInterval prototype (\<lambda>k. 9 / 10)
        ((onInterval prototype (\<lambda>k. 0) ^^ 50) (handlePlayPause (initSim prototype (\<lambda>k. 0))))))) ! 5)
     = 303 / 10"
proof -
  define s0 where "s0 = handlePlayPause (initSim prototype (\<lambda>k. 0))"
  define s50 where "s50 = (onInterval prototype (\<lambda>k. 0) ^^ 50) s0"
  define s51 where "s51 = onInterval prototype (\<lambda>k. 9 / 10) s50"
  have p: "isPlaying s0" "step s0 = 0" "\<not> faultInjected s0"
    by (simp_all add: s0_def handlePlayPause_def initSim_def)
  have m: "maxSteps prototype = 200" by (simp add: maxSteps_def)
  have a50: "step s50 = 50" "isPlaying s50" "\<not> faultInjected s50"
    unfolding s50_def using ticks_count [of s0 50 prototype "\<lambda>k. 0"] p m by simp_all
  have d51: "SimState.data s51 = calculateSimulationData prototype 51 False (\<lambda>k. 9 / 10)"
    and a51: "step s51 = 51" "isPlaying s51" "\<not> faultInjected s51"
    unfolding s51_def using onInterval_data [of s50 prototype "\<lambda>k. 9 / 10"] a50 m by simp_all
  have d52: "SimState.data (onInterval prototype (\<lambda>k. 1 / 10) s51)
               = calculateSimulationData prototype 52 False (\<lambda>k. 1 / 10)"
    using onInterval_data [of s51 prototype "\<lambda>k. 1 / 10"] a51 m by simp
  have f: "isFaultyAgent prototype 5" by (simp add: isFaultyAgent_def numAgents_def)
  have fs: "faultStep prototype = 50" by (simp add: faultStep_def)
  show ?thesis
    unfolding s0_def [symmetric] s50_def [symmetric] s51_def [symmetric] d51 d52
    by (simp add: faulty_reading [OF f] fs)
qed

lemma failed_setup:
  "runRing 3 [TriggerFailure 0, Toggle] (initRing 3 (\<lambda>k. 1 / 2))
     = Inr (toggleSimulation (triggerFailure 0 (initRing 3 (\<lambda>k. 1 / 2))))
   \<and> isRunning (toggleSimulation (triggerFailure 0 (initRing 3 (\<lambda>k. 1 / 2))))
   \<and> healthStatus (RingState.agents
         (toggleSimulation (triggerFailure 0 (initRing 3 (\<lambda>k. 1 / 2)))) ! 0) = failed
   \<and> Agent.temperature (RingState.agents
         (toggleSimulation (triggerFailure 0 (initRing 3 (\<lambda>k. 1 / 2)))) ! 0) = Num 25"
  by (simp add: toggleSimulation_def triggerFailure_def initRing_def createInitialAgents_def
      initialAgent_def INITIAL_TEMP_def jssub_def)

text \<open>
  C5 (amended). Ring variant: in every reachable running state, a failed agent has a finite
  temperature \<open>t\<close> and fan speed 0, and after \<open>k\<close> further steps it is still failed with
  temperature \<open>min (t + 0.6 k) 40\<close>, fan speed 0 and an unchanged load; so its temperature
  rises by 0.6 per step until it reaches 40 and stays there. Tick-counter variant: while
  the fault is active (at or after the fault tick or after a manual fault, and less than 100
  ticks past the fault tick) a faulty agent has status faulty, fan speed 0, power 0 and a
  temperature \<open>30 + 3 r\<close> for a fresh draw \<open>r\<close>, in \<open>[30, 33)\<close>, whatever it was before.
\<close>

theorem failed_agent_heating:
  assumes "unit_draws rs0" and "list_all ringDrawsOK cmds"
    and "runRing N cmds (initRing N rs0) = Inr s" and "isRunning s" and "i < nat N"
    and "healthStatus (RingState.agents s ! i) = failed"
    and "isFaultyAgent sc j" and "faultStep sc \<le> cs \<or> mf" and "cs < faultStep sc + 100"
    and "unit_draws rs"
  shows "(\<exists>t s'. Agent.temperature (RingState.agents s ! i) = Num t
            \<and> Agent.fanSpeed (RingState.agents s ! i) = Num 0
            \<and> runRing N (replicate k Step) s = Inr s'
            \<and> healthStatus (RingState.agents s' ! i) = failed
            \<and> Agent.temperature (RingState.agents s' ! i) = Num (min (t + 0.6 * real k) 40)
            \<and> Agent.fanSpeed (RingState.agents s' ! i) = Num 0
            \<and> Agent.load (RingState.agents s' ! i) = Agent.load (RingState.agents s ! i))
       \<and> AgentData.status (SimulationData.agents (calculateSimulationData sc cs mf rs) ! j)
           = Faulty
       \<and> AgentData.fanSpeed (SimulationData.agents (calculateSimulationData sc cs mf rs) ! j) = 0
       \<and> AgentData.power (SimulationData.agents (calculateSimulationData sc cs mf rs) ! j) = 0
       \<and> AgentData.temperature (SimulationData.agents (calculateSimulationData sc cs mf rs) ! j)
           = 30 + rs (drawsBefore sc cs mf rs j) * 3
       \<and> 30 \<le> AgentData.temperature
                 (SimulationData.agents (calculateSimulationData sc cs mf rs) ! j)
       \<and> AgentData.temperature (SimulationData.agents (calculateSimulationData sc cs mf rs) ! j)
           < 33"
proof -
  from runRing_ok [OF initRing_inv [OF assms(1)] assms(2), of N]
  have inv: "ringInv (nat N) s" by (simp add: assms(3))
  then have ok: "ringAgentOK (nat N) (RingState.agents s ! i)"
    using assms(5) by (simp add: ringInv_def list_all_length)
  then obtain t where t: "Agent.temperature (RingState.agents s ! i) = Num t"
    using finiteInE unfolding ringAgentOK_def by blast
  have fan: "Agent.fanSpeed (RingState.agents s ! i) = Num 0"
    using ok assms(6) by (simp add: ringAgentOK_def)
  from failed_steps [OF assms(5) inv assms(4,6) t, of k] obtain s' where s':
    "runRing N (replicate k Step) s = Inr s'"
    "RingState.agents s' ! i =
       (RingState.agents s ! i)\<lparr>Agent.temperature := Num (min (t + 0.6 * real k) 40)\<rparr>"
    by blast
  have ring: "\<exists>t s'. Agent.temperature (RingState.agents s ! i) = Num t
            \<and> Agent.fanSpeed (RingState.agents s ! i) = Num 0
            \<and> runRing N (replicate k Step) s = Inr s'
            \<and> healthStatus (RingState.agents s' ! i) = failed
            \<and> Agent.temperature (RingState.agents s' ! i) = Num (min (t + 0.6 * real k) 40)
            \<and> Agent.fanSpeed (RingState.agents s' ! i) = Num 0
            \<and> Agent.load (RingState.agents s' ! i) = Agent.load (RingState.agents s ! i)"
    using t fan s' assms(6) by (intro exI [of _ t] exI [of _ s']) simp
  have r: "0 \<le> rs (drawsBefore sc cs mf rs j)" "rs (drawsBefore sc cs mf rs j) < 1"
    using assms(10) by (simp_all add: unit_draws_def)
  show ?thesis
    using ring r by (simp add: faulty_reading [OF assms(7,8,9)])
qed

theorem failed_agent_heating_witness:
  "unit_draws (\<lambda>k. 1 / 2)
   \<and> runRing 3 [TriggerFailure 0, Toggle] (initRing 3 (\<lambda>k. 1 / 2))
       = Inr (toggleSimulation (triggerFailure 0 (initRing 3 (\<lambda>k. 1 / 2))))
   \<and> map_sum id (\<lambda>s. Agent.temperature (RingState.agents s ! 0))
       (runRing 3 (replicate 10 Step)
          (toggleSimulation (triggerFailure 0 (initRing 3 (\<lambda>k. 1 / 2))))) = Inr (Num 31)
   \<and> isFaultyAgent prototype 5
   \<and> AgentData.temperature
       (SimulationData.agents (calculateSimulationData prototype 51 False (\<lambda>k. 1 / 2)) ! 5)
       = 63 / 2"
proof -
  have u: "unit_draws (\<lambda>k. 1 / 2)" by (simp add: unit_draws_def)
  have c: "list_all ringDrawsOK [TriggerFailure 0, Toggle]" by simp
  have f: "isFaultyAgent prototype 5" "faultStep prototype \<le> 51 \<or> False"
    "51 < faultStep prototype + 100"
    by (simp_all add: isFaultyAgent_def numAgents_def faultStep_def)
  have i: "(0::nat) < nat 3" by simp
  note s = failed_setup
  from failed_agent_heating [OF u c conjunct1 [OF s] conjunct1 [OF conjunct2 [OF s]] i
      conjunct1 [OF conjunct2 [OF conjunct2 [OF s]]] f u, of 10]
  show ?thesis
    using u f(1) s by auto
qed

text \<open>
  C5 as stated fails. Tick-counter variant, prototype scenario: the faulty agent 5 reads
  32.7 at tick 51 and 30.3 at tick 52 for the draws 0.9 and 0.1. Ring variant, three agents
  created with all draws 0.5, agent 0 failed: its temperature is 40 after 26 steps and still
  40 after 27, and its load is 50 throughout, not 0.
\<close>

theorem failed_heating_counterexample:
  "AgentData.temperature (SimulationData.agents (SimState.data
      (onInterval prototype (\<lambda>k. 9 / 10)
        ((onInterval prototype (\<lambda>k. 0) ^^ 50) (handlePlayPause (initSim prototype (\<lambda>k. 0)))))) ! 5)
     = 327 / 10
   \<and> AgentData.temperature (SimulationData.agents (SimState.data
      (onInterval prototype (\<lambda>k. 1 / 10) (onInterval prototype (\<lambda>k. 9 / 10)
        ((onInterval prototype (\<lambda>k. 0) ^^ 50) (handlePlayPause (initSim prototype (\<lambda>k. 0))))))) ! 5)
     = 303 / 10
   \<and> map_sum id (\<lambda>s. Agent.temperature (RingState.agents s ! 0))
       (runRing 3 (replicate 26 Step)
          (toggleSimulation (triggerFailure 0 (initRing 3 (\<lambda>k. 1 / 2))))) = Inr (Num 40)
   \<and> map_sum id (\<lambda>s. Agent.temperature (RingState.agents s ! 0))
       (runRing 3 (replicate 27 Step)
          (toggleSimulation (triggerFailure 0 (initRing 3 (\<lambda>k. 1 / 2))))) = Inr (Num 40)
   \<and> map_sum id (\<lambda>s. Agent.load (RingState.agents s ! 0))
       (runRing 3 (replicate 27 Step)
          (toggleSimulation (triggerFailure 0 (initRing 3 (\<lambda>k. 1 / 2))))) = Inr (Num 50)"
proof -
  define s1 where "s1 = toggleSimulation (triggerFailure 0 (initRing 3 (\<lambda>k. 1 / 2)))"
  have u: "unit_draws (\<lambda>k. 1 / 2)" by (simp add: unit_draws_def)
  note s = failed_setup [folded s1_def]
  have inv: "ringInv (nat 3) s1"
    using runRing_ok [OF initRing_inv [OF u], of "[TriggerFailure 0, Toggle]" 3] s by simp
  have i: "(0::nat) < nat 3" by simp
  have l: "Agent.load (RingState.agents s1 ! 0) = Num 50"
    by (simp add: s1_def toggleSimulation_def triggerFailure_def initRing_def
        createInitialAgents_def initialAgent_def)
  have r: "map_sum id (\<lambda>s. Agent.temperature (RingState.agents s ! 0))
            (runRing 3 (replicate k Step) s1) = Inr (Num (min (25 + 0.6 * real k) 40))
       \<and> map_sum id (\<lambda>s. Agent.load (RingState.agents s ! 0))
            (runRing 3 (replicate k Step) s1) = Inr (Num 50)" for k
    using failed_steps [OF i inv, of 25 k] s l by auto
  show ?thesis
    using faulty_tick_example r [of 26] r [of 27] unfolding s1_def by simp
qed

section \<open>Aggregates\<close>

lemma foldl_jsadd_Num:
  "map f xs = map Num ts \<Longrightarrow>
   foldl (\<lambda>sum a. jsadd sum (f a)) (Num z) xs = Num (z + sum_list ts)"
proof (induction xs arbitrary: z ts)
  case Nil
  then show ?case by simp
next
  case (Cons x xs)
  then obtain t ts' where ts: "ts = t # ts'" "f x = Num t" "map f xs = map Num ts'"
    by (cases ts) auto
  show ?case using Cons.IH [OF ts(3)] by (simp add: ts(1,2) add.assoc)
qed

lemma stats_finite:
  "(as \<noteq> [] \<and> map Agent.temperature as = map Num ts
      \<longrightarrow> averageTemperature (calculateStats as) = Num (mean ts))
   \<and> (map Agent.load as = map Num ls \<longrightarrow> totalLoad (calculateStats as) = Num (sum_list ls))"
proof (intro conjI impI)
  assume a: "as \<noteq> [] \<and> map Agent.temperature as = map Num ts"
  then have "length ts = length as" by (metis length_map)
  then show "averageTemperature (calculateStats as) = Num (mean ts)"
    using a by (simp add: calculateStats_def foldl_jsadd_Num [where ts = ts] mean_def)
next
  assume "map Agent.load as = map Num ls"
  then show "totalLoad (calculateStats as) = Num (sum_list ls)"
    by (simp add: calculateStats_def foldl_jsadd_Num [where ts = ls])
qed

lemma run_consistent: "consistentData (SimState.data (run sc cmds (initSim sc rs)))"
  using run_init_data [of sc cmds rs] calc_consistent by auto

text \<open>
  C2. Every snapshot of the tick-counter variant, computed at any tick and in any reachable
  hook state, carries the arithmetic mean of its own agents' temperatures, their population
  variance (divisor: the number of agents) and the mean of their powers. The statistics of
  the ring variant carry the mean of the temperatures of a non-empty population and the sum
  of the loads, for finite readings.
\<close>

theorem aggregate_consistency:
  "consistentData (calculateSimulationData sc cs mf rs')
   \<and> consistentData (SimState.data (run sc cmds (initSim sc rs)))
   \<and> length (SimulationData.agents (calculateSimulationData sc cs mf rs')) = numAgents sc
   \<and> (as \<noteq> [] \<and> map Agent.temperature as = map Num ts
        \<longrightarrow> averageTemperature (calculateStats as) = Num (mean ts))
   \<and> (map Agent.load as = map Num ls \<longrightarrow> totalLoad (calculateStats as) = Num (sum_list ls))"
  using stats_finite [of as ts ls]
  by (simp add: calc_consistent run_consistent agents_calc length_genAgents)

theorem aggregate_consistency_witness:
  "createInitialAgents 2 (\<lambda>k. 1 / 2) \<noteq> []
   \<and> map Agent.temperature (createInitialAgents 2 (\<lambda>k. 1 / 2)) = map Num [25, 25]
   \<and> map Agent.load (createInitialAgents 2 (\<lambda>k. 1 / 2)) = map Num [50, 50]
   \<and> averageTemperature (calculateStats (createInitialAgents 2 (\<lambda>k. 1 / 2))) = Num 25
   \<and> totalLoad (calculateStats (createInitialAgents 2 (\<lambda>k. 1 / 2))) = Num 100
   \<and> avgTemp (calculateSimulationData prototype 0 False (\<lambda>k. 1 / 2))
       = mean (map AgentData.temperature
                (SimulationData.agents (calculateSimulationData prototype 0 False (\<lambda>k. 1 / 2))))"
proof -
  have c: "createInitialAgents 2 (\<lambda>k. 1 / 2) = [initialAgent 2 (\<lambda>k. 1 / 2) 0, initialAgent 2 (\<lambda>k. 1 / 2) 1]"
    by (simp add: createInitialAgents_def upt_conv_Cons)
  have h: "createInitialAgents 2 (\<lambda>k. 1 / 2) \<noteq> []"
    "map Agent.temperature (createInitialAgents 2 (\<lambda>k. 1 / 2)) = map Num [25, 25]"
    "map Agent.load (createInitialAgents 2 (\<lambda>k. 1 / 2)) = map Num [50, 50]"
    by (simp_all add: c initialAgent_def INITIAL_TEMP_def jssub_def)
  show ?thesis
    using aggregate_consistency [of prototype 0 False "\<lambda>k. 1 / 2" "[]" "\<lambda>k. 0"
        "createInitialAgents 2 (\<lambda>k. 1 / 2)" "[25, 25]" "[50, 50]"] h
    by (simp add: mean_def consistentData_def)
qed

section \<open>Fault injection\<close>

lemma inject_reading:
  "isFaultyAgent sc j \<Longrightarrow>
   AgentData.temperature (SimulationData.agents (SimState.data
       (handleInjectFault sc False rs s)) ! j)
     = 30 + rs (drawsBefore sc (faultStep sc) True rs j) * 3"
  by (simp add: handleInjectFault_def faulty_reading)

lemma status_genAgent:
  "AgentData.status (fst (genAgent sc cs mf rs i k))
     = AgentData.status (fst (genAgent sc cs mf rs' i k'))"
  by (simp add: genAgent_alt)

lemma status_genAgents:
  "map AgentData.status (genAgents sc cs mf rs) = map AgentData.status (genAgents sc cs mf rs')"
  by (simp add: genAgents_map status_genAgent [of sc cs mf rs _ _ rs'])

lemma calc_fixed:
  "phase (calculateSimulationData sc cs mf rs) = phase (calculateSimulationData sc cs mf rs')
   \<and> phaseDescription (calculateSimulationData sc cs mf rs)
       = phaseDescription (calculateSimulationData sc cs mf rs')
   \<and> recoveryTime (calculateSimulationData sc cs mf rs)
       = recoveryTime (calculateSimulationData sc cs mf rs')
   \<and> efficiency (calculateSimulationData sc cs mf rs)
       = efficiency (calculateSimulationData sc cs mf rs')
   \<and> map AgentData.status (SimulationData.agents (calculateSimulationData sc cs mf rs))
       = map AgentData.status (SimulationData.agents (calculateSimulationData sc cs mf rs'))"
  using status_genAgents [of sc cs mf rs rs']
  by (simp add: calculateSimulationData_def Let_def)

text \<open>
  C3 (amended). A second injection issued on the handler of the hook as rendered after the
  first one changes nothing. Two injections on the handler of one render leave the latch,
  the tick, the playing flag and, in the snapshot, the phase, its description, the recovery
  time, the efficiency and the statuses of the agents as a single one does. \<open>canInjectFault\<close>
  holds exactly when the latch is unset and the tick is before the fault tick, and it is
  false once an injection has been committed.
\<close>

theorem injectFault_idempotent:
  "handleInjectFault sc (faultInjected (handleInjectFault sc (faultInjected s) rs1 s)) rs2
       (handleInjectFault sc (faultInjected s) rs1 s)
     = handleInjectFault sc (faultInjected s) rs1 s
   \<and> faultInjected (handleInjectFault sc seen rs2 (handleInjectFault sc seen rs1 s))
       = faultInjected (handleInjectFault sc seen rs1 s)
   \<and> step (handleInjectFault sc seen rs2 (handleInjectFault sc seen rs1 s))
       = step (handleInjectFault sc seen rs1 s)
   \<and> isPlaying (handleInjectFault sc seen rs2 (handleInjectFault sc seen rs1 s))
       = isPlaying (handleInjectFault sc seen rs1 s)
   \<and> phase (SimState.data (handleInjectFault sc seen rs2 (handleInjectFault sc seen rs1 s)))
       = phase (SimState.data (handleInjectFault sc seen rs1 s))
   \<and> phaseDescription
         (SimState.data (handleInjectFault sc seen rs2 (handleInjectFault sc seen rs1 s)))
       = phaseDescription (SimState.data (handleInjectFault sc seen rs1 s))
   \<and> recoveryTime
         (SimState.data (handleInjectFault sc seen rs2 (handleInjectFault sc seen rs1 s)))
       = recoveryTime (SimState.data (handleInjectFault sc seen rs1 s))
   \<and> efficiency
         (SimState.data (handleInjectFault sc seen rs2 (handleInjectFault sc seen rs1 s)))
       = efficiency (SimState.data (handleInjectFault sc seen rs1 s))
   \<and> map AgentData.status (SimulationData.agents
         (SimState.data (handleInjectFault sc seen rs2 (handleInjectFault sc seen rs1 s))))
       = map AgentData.status (SimulationData.agents
           (SimState.data (handleInjectFault sc seen rs1 s)))
   \<and> (canInjectFault sc s \<longleftrightarrow> \<not> faultInjected s \<and> step s < faultStep sc)
   \<and> \<not> canInjectFault sc (handleInjectFault sc (faultInjected s) rs1 s)"
  using calc_fixed [of sc "faultStep sc" True rs2 rs1]
  by (simp add: handleInjectFault_def canInjectFault_def)

text \<open>
  C3 as stated fails for two calls on the handler of one render. From the initial state of
  the prototype scenario, where the latch is unset, one injection with all draws 0.25 leaves
  agent 5 at 30.75 degrees; a second call on the same handler with all draws 0.75 passes the
  guard again and leaves it at 32.25 degrees.
\<close>

theorem inject_twice_counterexample:
  "faultInjected (initSim prototype (\<lambda>k. 0)) = False
   \<and> AgentData.temperature (SimulationData.agents (SimState.data
        (handleInjectFault prototype False (\<lambda>k. 1 / 4) (initSim prototype (\<lambda>k. 0)))) ! 5)
       = 123 / 4
   \<and> AgentData.temperature (SimulationData.agents (SimState.data
        (handleInjectFault prototype False (\<lambda>k. 3 / 4)
          (handleInjectFault prototype False (\<lambda>k. 1 / 4) (initSim prototype (\<lambda>k. 0))))) ! 5)
       = 129 / 4"
proof -
  have f: "isFaultyAgent prototype 5" by (simp add: isFaultyAgent_def numAgents_def)
  show ?thesis
    by (simp add: inject_reading [OF f] initSim_def)
qed

section \<open>Line variant: the swarm step keeps readings in range\<close>

lemma len_names: "length agentNames = 6"
  by (simp add: agentNames_def)

lemma upt6: "[0..<6] = [0, 1, 2, 3, 4, 5::nat]"
  by (simp add: upt_rec)

lemma lineSkel_eq:
  "lineSkel =
     [(''Z1-A'', [''Z1-B'']), (''Z1-B'', [''Z1-A'', ''Z2-A'']), (''Z2-A'', [''Z1-B'', ''Z2-B'']),
      (''Z2-B'', [''Z2-A'', ''Z3-A'']), (''Z3-A'', [''Z2-B'', ''Z3-B'']), (''Z3-B'', [''Z3-A''])]"
  unfolding lineSkel_def len_names upt6
  by (simp add: lineNeighbors_def agentNames_def)

lemma skel_length: "skel as = lineSkel \<Longrightarrow> length as = 6"
proof -
  assume "skel as = lineSkel"
  then have "length (skel as) = length lineSkel" by simp
  then show ?thesis by (simp add: skel_def lineSkel_def len_names)
qed


lemma clamp_range: "a \<le> b \<Longrightarrow> a \<le> clamp v a b \<and> clamp v a b \<le> b"
  by (simp add: clamp_def)

lemma findIndex_map: "findIndex P (map f xs) = findIndex (\<lambda>x. P (f x)) xs"
  by (induction xs) simp_all

lemma agentById_skel: "agentById nid as = findIndex (\<lambda>x. fst x = nid) (skel as)"
  by (simp add: agentById_def skel_def findIndex_map)

lemma neighbors_skel: "i < length as \<Longrightarrow> SwarmAgent.neighbors (as ! i) = snd (skel as ! i)"
  by (simp add: skel_def)

lemma less6: "i < 6 \<Longrightarrow> i = 0 \<or> i = 1 \<or> i = 2 \<or> i = 3 \<or> i = 4 \<or> i = (5::nat)"
  by arith

lemma idx_names:
  "findIndex (\<lambda>x. fst x = nid) lineSkel =
     (if ''Z1-A'' = nid then Some 0 else if ''Z1-B'' = nid then Some 1
      else if ''Z2-A'' = nid then Some 2 else if ''Z2-B'' = nid then Some 3
      else if ''Z3-A'' = nid then Some 4 else if ''Z3-B'' = nid then Some 5 else None)"
  by (simp add: lineSkel_eq)

lemma line_neighbors:
  "snd (lineSkel ! 0) = [''Z1-B'']"
  "snd (lineSkel ! 1) = [''Z1-A'', ''Z2-A'']"
  "snd (lineSkel ! 2) = [''Z1-B'', ''Z2-B'']"
  "snd (lineSkel ! 3) = [''Z2-A'', ''Z3-A'']"
  "snd (lineSkel ! 4) = [''Z2-B'', ''Z3-B'']"
  "snd (lineSkel ! 5) = [''Z3-A'']"
  by (simp_all add: lineSkel_eq)

lemma idx_of_name:
  "findIndex (\<lambda>x. fst x = ''Z1-A'') lineSkel = Some 0"
  "findIndex (\<lambda>x. fst x = ''Z1-B'') lineSkel = Some 1"
  "findIndex (\<lambda>x. fst x = ''Z2-A'') lineSkel = Some 2"
  "findIndex (\<lambda>x. fst x = ''Z2-B'') lineSkel = Some 3"
  "findIndex (\<lambda>x. fst x = ''Z3-A'') lineSkel = Some 4"
  "findIndex (\<lambda>x. fst x = ''Z3-B'') lineSkel = Some 5"
  by (simp_all add: idx_names)

lemma neighbor_index:
  assumes "i < 6" "nid \<in> set (snd (lineSkel ! i))"
  shows "\<exists>j<6. findIndex (\<lambda>x. fst x = nid) lineSkel = Some j \<and> j \<noteq> i"
proof -
  consider "i = 0" | "i = 1" | "i = 2" | "i = 3" | "i = 4" | "i = 5"
    using less6 [OF assms(1)] by blast
  then show ?thesis
  proof cases
    case 1
    then have "nid = ''Z1-B''" using assms(2) by (simp add: line_neighbors)
    then show ?thesis by (simp add: idx_of_name 1)
  next
    case 2
    then have "nid = ''Z1-A'' \<or> nid = ''Z2-A''" using assms(2) line_neighbors(2) by simp
    then show ?thesis by (elim disjE) (simp_all add: idx_of_name 2)
  next
    case 3
    then have "nid = ''Z1-B'' \<or> nid = ''Z2-B''" using assms(2) by (simp add: line_neighbors)
    then show ?thesis by (elim disjE) (simp_all add: idx_of_name 3)
  next
    case 4
    then have "nid = ''Z2-A'' \<or> nid = ''Z3-A''" using assms(2) by (simp add: line_neighbors)
    then show ?thesis by (elim disjE) (simp_all add: idx_of_name 4)
  next
    case 5
    then have "nid = ''Z2-B'' \<or> nid = ''Z3-B''" using assms(2) by (simp add: line_neighbors)
    then show ?thesis by (elim disjE) (simp_all add: idx_of_name 5)
  next
    case 6
    then have "nid = ''Z3-A''" using assms(2) by (simp add: line_neighbors)
    then show ?thesis by (simp add: idx_of_name 6)
  qed
qed

lemma neighbor_found:
  assumes "skel as = lineSkel" "i < 6" "nid \<in> set (SwarmAgent.neighbors (as ! i))"
  shows "\<exists>j<6. agentById nid as = Some j \<and> j \<noteq> i"
proof -
  have n: "nid \<in> set (snd (lineSkel ! i))"
    using assms neighbors_skel [of i as] skel_length [OF assms(1)] by simp
  show ?thesis
    unfolding agentById_skel assms(1) by (rule neighbor_index [OF assms(2) n])
qed

lemma skel_update:
  "SwarmAgent.ident b = SwarmAgent.ident (as ! j) \<Longrightarrow>
   SwarmAgent.neighbors b = SwarmAgent.neighbors (as ! j) \<Longrightarrow> skel (as[j := b]) = skel as"
  by (cases "j < length as") (simp_all add: skel_def map_update list_update_same_conv list_update_beyond)

lemma range_update:
  "list_all lineRange as \<Longrightarrow> lineRange b \<Longrightarrow> list_all lineRange (as[j := b])"
  by (auto simp: list_all_iff dest: set_update_subset_insert [THEN subsetD])

lemma lineInv_nth: "lineInv as \<Longrightarrow> j < 6 \<Longrightarrow> lineRange (as ! j)"
  using skel_length by (simp add: lineInv_def list_all_length)

lemma lineInv_setPower:
  assumes "lineInv as" "j < 6" "0.2 \<le> p" "p \<le> 6"
  shows "lineInv (setPower j p as)"
proof -
  have "lineRange ((as ! j)\<lparr>SwarmAgent.power := p\<rparr>)"
    using lineInv_nth [OF assms(1,2)] assms(3,4) by (simp add: lineRange_def)
  then show ?thesis
    using assms(1) by (simp add: lineInv_def setPower_def skel_update range_update)
qed

lemma lineInv_setStatus:
  assumes "lineInv as" "j < 6"
  shows "lineInv (as[j := (as ! j)\<lparr>SwarmAgent.status := st\<rparr>])"
proof -
  have "lineRange ((as ! j)\<lparr>SwarmAgent.status := st\<rparr>)"
    using lineInv_nth [OF assms] by (simp add: lineRange_def)
  then show ?thesis
    using assms(1) by (simp add: lineInv_def skel_update range_update)
qed

lemma foldE_inv:
  assumes "\<And>x s. x \<in> set xs \<Longrightarrow> I s \<Longrightarrow> \<exists>s'. f x s = Inr s' \<and> I s'"
  shows "I s \<Longrightarrow> \<exists>s'. foldE f xs s = Inr s' \<and> I s'"
  using assms
proof (induction xs arbitrary: s)
  case Nil
  then show ?case by simp
next
  case (Cons x xs)
  obtain s1 where s1: "f x s = Inr s1" "I s1"
    using Cons.prems(2) [of x s] Cons.prems(1) by auto
  have "\<exists>s'. foldE f xs s1 = Inr s' \<and> I s'"
    by (rule Cons.IH [OF s1(2)]) (simp add: Cons.prems(2))
  then show ?case by (simp add: s1(1))
qed

lemma shareDuty_ok:
  assumes "lineInv as" "i < 6" "nid \<in> set (snd (lineSkel ! i))"
  shows "\<exists>as'. shareDuty i nid as = Inr as' \<and> lineInv as'"
proof -
  have sk: "skel as = lineSkel" using assms(1) by (simp add: lineInv_def)
  have "nid \<in> set (SwarmAgent.neighbors (as ! i))"
    using assms(2,3) neighbors_skel [of i as] skel_length [OF sk] sk by simp
  from neighbor_found [OF sk assms(2) this] obtain j where j: "j < 6" "agentById nid as = Some j"
    by blast
  define as1 where "as1 = setPower j (clamp (SwarmAgent.power (as ! j) + 0.15) 1.5 6.0) as"
  have 1: "lineInv as1"
    unfolding as1_def using clamp_range [of "1.5" "6.0" "SwarmAgent.power (as ! j) + 0.15"]
    by (intro lineInv_setPower [OF assms(1) j(1)]) simp_all
  have 2: "lineInv (setPower i (clamp (SwarmAgent.power (as1 ! i) - 0.12) 1.0 6.0) as1)"
    using clamp_range [of "1.0" "6.0" "SwarmAgent.power (as1 ! i) - 0.12"]
    by (intro lineInv_setPower [OF 1 assms(2)]) simp_all
  show ?thesis
    using 2 by (simp add: shareDuty_def j(2) as1_def Let_def)
qed

lemma balanceHot_ok:
  assumes "lineInv as" "i < 6"
  shows "\<exists>as'. balanceHot i as = Inr as' \<and> lineInv as'"
proof -
  have sk: "skel as = lineSkel" using assms(1) by (simp add: lineInv_def)
  have nb: "SwarmAgent.neighbors (as ! i) = snd (lineSkel ! i)"
    using assms(2) neighbors_skel [of i as] skel_length [OF sk] sk by simp
  show ?thesis
    unfolding balanceHot_def nb
    by (rule foldE_inv [where I = lineInv])
      (simp_all add: shareDuty_ok assms lineInv_setStatus)
qed

lemma hotPhase_ok:
  assumes "lineInv as"
  shows "\<exists>as'. hotPhase as = Inr as' \<and> lineInv as'"
proof -
  have sk: "skel as = lineSkel" using assms by (simp add: lineInv_def)
  show ?thesis
    unfolding hotPhase_def
    by (rule foldE_inv [where I = lineInv])
      (simp_all add: balanceHot_ok assms hotIndices_def skel_length [OF sk])
qed

lemma skel_localUpdate:
  "SwarmAgent.ident (localUpdate amb rb r1 r2 a) = SwarmAgent.ident a
   \<and> SwarmAgent.neighbors (localUpdate amb rb r1 r2 a) = SwarmAgent.neighbors a"
  by (simp add: localUpdate_def Let_def)

lemma skel_localUpdates: "skel (localUpdates amb rb rs k as) = skel as"
proof -
  have "skel (localUpdates amb rb rs k as)
          = map (\<lambda>j. (SwarmAgent.ident (as ! j), SwarmAgent.neighbors (as ! j))) [0..<length as]"
    by (simp add: skel_def localUpdates_def skel_localUpdate)
  also have "\<dots> = map (\<lambda>a. (SwarmAgent.ident a, SwarmAgent.neighbors a))
                      (map (\<lambda>j. as ! j) [0..<length as])"
    by (simp add: o_def)
  also have "\<dots> = skel as"
    by (simp only: map_nth skel_def)
  finally show ?thesis .
qed

lemma localUpdate_range:
  assumes "lineRange a" "22 \<le> amb - 1" "amb - 1 \<le> 42"
  shows "lineRange (localUpdate amb rb r1 r2 a)"
proof -
  have t: "amb - 1 \<le> clamp v (amb - 1) 42 \<and> clamp v (amb - 1) 42 \<le> 42" for v
    by (rule clamp_range [OF assms(3)])
  have l: "0.15 \<le> clamp v 0.15 0.95 \<and> clamp v 0.15 0.95 \<le> 0.95" for v :: real
    by (rule clamp_range) simp
  have "22 \<le> temp (localUpdate amb rb r1 r2 a)" "temp (localUpdate amb rb r1 r2 a) \<le> 42"
    using t [of "temp a + 0.05 * (SwarmAgent.load a * 8)
        - 0.06 * (SwarmAgent.power a * (1.8 + rb)) + rnd r1 (- 0.15) 0.2"] assms(2)
    by (simp_all add: localUpdate_def Let_def)
  moreover have "0.15 \<le> SwarmAgent.load (localUpdate amb rb r1 r2 a)"
    "SwarmAgent.load (localUpdate amb rb r1 r2 a) \<le> 0.95"
    using l [of "SwarmAgent.load a + rnd r2 (- 0.02) 0.02"]
    by (simp_all add: localUpdate_def Let_def)
  moreover have "SwarmAgent.power (localUpdate amb rb r1 r2 a) = SwarmAgent.power a"
    by (simp add: localUpdate_def Let_def)
  ultimately show ?thesis using assms(1) by (simp add: lineRange_def)
qed

lemma ambient_range: "22 \<le> 24 + sin x * 1.0 - 1 \<and> 24 + sin x * 1.0 - 1 \<le> (42::real)"
proof -
  have a: "- 1 \<le> sin x" and b: "sin x \<le> 1" by simp_all
  have "0 \<le> 1 + sin x" using a by linarith
  moreover have "sin x \<le> 19" using b by linarith
  ultimately show ?thesis by simp
qed

lemma lineInv_localUpdates:
  assumes "lineInv as"
  shows "lineInv (localUpdates (24 + sin x * 1.0) rb rs k as)"
proof -
  have "list_all lineRange (localUpdates (24 + sin x * 1.0) rb rs k as)"
    using assms ambient_range [of x]
    by (simp add: localUpdates_def list_all_length lineInv_def localUpdate_range)
  then show ?thesis using assms by (simp add: lineInv_def skel_localUpdates)
qed


lemma skel_settle: "skel (fst (settle rs k as)) = skel as"
  by (induction as arbitrary: k) (simp_all add: skel_def case_prod_beta)

lemma range_settle: "list_all lineRange as \<Longrightarrow> list_all lineRange (fst (settle rs k as))"
proof (induction as arbitrary: k)
  case Nil
  then show ?case by simp
next
  case (Cons a as)
  have "lineRange (a\<lparr>SwarmAgent.status := OK,
          SwarmAgent.power := clamp (SwarmAgent.power a + rnd (rs k) (- 0.08) 0.08) 1.5 6.0\<rparr>)"
    using Cons.prems clamp_range [of "1.5" "6.0" "SwarmAgent.power a + rnd (rs k) (- 0.08) 0.08"]
    by (simp add: lineRange_def)
  then show ?case
    using Cons.IH [of "k + 1"] Cons.IH [of k] Cons.prems by (simp add: case_prod_beta)
qed

lemma lineInv_settle: "lineInv as \<Longrightarrow> lineInv (fst (settle rs k as))"
  by (simp add: lineInv_def skel_settle range_settle)

lemma boost_ok:
  assumes "lineInv as" "i < 6" "nid \<in> set (snd (lineSkel ! i))"
  shows "\<exists>as'. boost nid as = Inr as' \<and> lineInv as'"
proof -
  have sk: "skel as = lineSkel" using assms(1) by (simp add: lineInv_def)
  have "nid \<in> set (SwarmAgent.neighbors (as ! i))"
    using assms(2,3) neighbors_skel [of i as] skel_length [OF sk] sk by simp
  from neighbor_found [OF sk assms(2) this] obtain j where j: "j < 6" "agentById nid as = Some j"
    by blast
  have "lineInv (setPower j (clamp (SwarmAgent.power (as ! j) + 0.5) 1.5 6.0) as)"
    using clamp_range [of "1.5" "6.0" "SwarmAgent.power (as ! j) + 0.5"]
    by (intro lineInv_setPower [OF assms(1) j(1)]) simp_all
  then show ?thesis by (simp add: boost_def j(2))
qed

lemma pick_index:
  assumes "0 \<le> r" "r < 1"
  shows "0 \<le> \<lfloor>r * real (6::nat)\<rfloor> \<and> \<lfloor>r * real (6::nat)\<rfloor> < 6"
proof -
  have "0 \<le> r * 6" "r * 6 < 6" using assms by simp_all
  then show ?thesis by (simp add: floor_less_iff)
qed

lemma rareFailure_ok:
  assumes inv: "lineInv as" and rs: "unit_draws rs"
  shows "\<exists>as' k'. rareFailure rs k as = Inr (as', k') \<and> lineInv as'"
proof (cases "rs k < 0.02")
  case False
  then show ?thesis using inv by (simp add: rareFailure_def)
next
  case True
  have sk: "skel as = lineSkel" using inv by (simp add: lineInv_def)
  have len: "length as = 6" by (rule skel_length [OF sk])
  define i where "i = nat \<lfloor>rs (k + 1) * real (length as)\<rfloor>"
  have r: "0 \<le> rs (k + 1)" "rs (k + 1) < 1" using rs by (simp_all add: unit_draws_def)
  note pk = pick_index [OF r]
  have i6: "i < 6" unfolding i_def len using pk by linarith
  define as1 where "as1 = as[i := (as ! i)\<lparr>SwarmAgent.status := FAIL,
      SwarmAgent.power := clamp (SwarmAgent.power (as ! i) * 0.2) 0.2 1.0\<rparr>]"
  have "lineRange ((as ! i)\<lparr>SwarmAgent.status := FAIL,
      SwarmAgent.power := clamp (SwarmAgent.power (as ! i) * 0.2) 0.2 1.0\<rparr>)"
    using lineInv_nth [OF inv i6] clamp_range [of "0.2" "1.0" "SwarmAgent.power (as ! i) * 0.2"]
    by (simp add: lineRange_def)
  then have inv1: "lineInv as1"
    using inv by (simp add: as1_def lineInv_def skel_update range_update)
  have nb: "SwarmAgent.neighbors (as1 ! i) = snd (lineSkel ! i)"
    using i6 inv1 neighbors_skel [of i as1] skel_length [of as1] by (simp add: lineInv_def)
  have "\<exists>as2. foldE boost (SwarmAgent.neighbors (as1 ! i)) as1 = Inr as2 \<and> lineInv as2"
    unfolding nb
  proof (rule foldE_inv [where I = lineInv])
    show "lineInv as1" by (rule inv1)
  next
    fix x s
    assume "x \<in> set (snd (lineSkel ! i))" "lineInv s"
    then show "\<exists>s'. boost x s = Inr s' \<and> lineInv s'"
      using boost_ok [OF _ i6] by blast
  qed
  then obtain as2 where as2: "foldE boost (SwarmAgent.neighbors (as1 ! i)) as1 = Inr as2"
    "lineInv as2" by blast
  have "rareFailure rs k as = Inr (as2, k + 2)"
    unfolding rareFailure_def Let_def i_def [symmetric] as1_def [symmetric]
    using True pk as2(1) by (simp add: len)
  then show ?thesis using as2(2) by blast
qed

lemma swarmStep_ok:
  assumes "lineInv as" "unit_draws rs"
  shows "\<exists>as' k'. swarmStep tk ren rs k as = Inr (as', k') \<and> lineInv as'"
proof -
  define as1 where "as1 = localUpdates (24 + sin (real tk / 25) * 1.0) ((ren - 30) * 0.002) rs k as"
  have 1: "lineInv as1" unfolding as1_def by (rule lineInv_localUpdates [OF assms(1)])
  from hotPhase_ok [OF 1] obtain as2 where 2: "hotPhase as1 = Inr as2" "lineInv as2" by blast
  from rareFailure_ok [OF 2(2) assms(2), of "k + 2 * length as"] obtain as3 k3 where
    3: "rareFailure rs (k + 2 * length as) as2 = Inr (as3, k3)" "lineInv as3" by blast
  have "swarmStep tk ren rs k as = Inr (settle rs k3 as3)"
    unfolding swarmStep_def Let_def as1_def [symmetric] by (simp add: 2(1) 3(1))
  then show ?thesis
    using lineInv_settle [OF 3(2), of rs k3] by (metis prod.collapse)
qed

lemma swarmStepNew_ok:
  assumes "lineInv as" "unit_draws rs"
  shows "\<exists>as' k'. swarmStepNew tk ren rs k as = Inr (as', k') \<and> lineInv as'"
proof -
  define as1 where "as1 = localUpdates (24 + sin (real tk / 25) * 1.0) ((ren - 30) * 0.002) rs k as"
  have 1: "lineInv as1" unfolding as1_def by (rule lineInv_localUpdates [OF assms(1)])
  from hotPhase_ok [OF 1] obtain as2 where 2: "hotPhase as1 = Inr as2" "lineInv as2" by blast
  obtain as3 k3 where 3: "settle rs (k + 2 * length as) as2 = (as3, k3)" by fastforce
  have i3: "lineInv as3" using lineInv_settle [OF 2(2), of rs "k + 2 * length as"] 3 by simp
  from rareFailure_ok [OF i3 assms(2), of k3] obtain as4 k4 where
    4: "rareFailure rs k3 as3 = Inr (as4, k4)" "lineInv as4" by blast
  have "swarmStepNew tk ren rs k as = Inr (as4, k4)"
    unfolding swarmStepNew_def Let_def as1_def [symmetric] by (simp add: 2(1) 3 4(1))
  then show ?thesis using 4(2) by blast
qed

section \<open>Line variant: the hot phase\<close>








lemma skel_initialSwarm: "skel (initialSwarm rs) = lineSkel"
  by (simp add: skel_def initialSwarm_def lineSkel_def)

lemma initialSwarm_range:
  assumes "unit_draws rs"
  shows "list_all lineRange (initialSwarm rs)"
proof -
  have "lineRange \<lparr>SwarmAgent.ident = n, temp = rnd (rs a) 25 28, load = rnd (rs b) 0.35 0.65,
          power = rnd (rs c) 2.5 4.5, neighbors = ns, status = OK\<rparr>" for n a b c ns
  proof -
    have "0 \<le> rs a" "rs a < 1" "0 \<le> rs b" "rs b < 1" "0 \<le> rs c" "rs c < 1"
      using assms by (simp_all add: unit_draws_def)
    then show ?thesis by (simp add: lineRange_def rnd_def field_simps)
  qed
  then show ?thesis by (simp add: initialSwarm_def list_all_iff)
qed

lemma lineInv_initialSwarm: "unit_draws rs \<Longrightarrow> lineInv (initialSwarm rs)"
  by (simp add: lineInv_def skel_initialSwarm initialSwarm_range)
























section \<open>Runs keep readings in range\<close>

lemma skel_reset:
  "skel (map (\<lambda>j. resetAgent rs j (as ! j)) [0..<length as]) = skel as"
proof -
  have "skel (map (\<lambda>j. resetAgent rs j (as ! j)) [0..<length as])
          = map (\<lambda>a. (SwarmAgent.ident a, SwarmAgent.neighbors a))
                (map (\<lambda>j. as ! j) [0..<length as])"
    by (simp add: skel_def resetAgent_def o_def)
  also have "\<dots> = skel as"
    by (simp only: map_nth skel_def)
  finally show ?thesis .
qed

lemma resetAgent_range:
  assumes "unit_draws rs"
  shows "lineRange (resetAgent rs j a)"
proof -
  have "0 \<le> rs (3 * j)" "rs (3 * j) < 1" "0 \<le> rs (3 * j + 1)" "rs (3 * j + 1) < 1"
    "0 \<le> rs (3 * j + 2)" "rs (3 * j + 2) < 1"
    using assms by (simp_all add: unit_draws_def)
  then show ?thesis by (simp add: lineRange_def resetAgent_def rnd_def field_simps)
qed

lemma lineInv_reset:
  assumes "lineInv (SwarmState.agents s)" "unit_draws rs"
  shows "lineInv (SwarmState.agents (reset rs s))"
  using assms
  by (simp add: reset_def stop_def lineInv_def skel_reset list_all_iff resetAgent_range)

lemma stepLoop_ok:
  assumes "lineInv (SwarmState.agents s)" "unit_draws rs"
  shows "\<exists>s'. stepLoop nw rs s = Inr s' \<and> lineInv (SwarmState.agents s')
            \<and> SwarmState.tick s' = SwarmState.tick s + 1"
proof -
  define tk where "tk = SwarmState.tick s + 1"
  define d where "d = stepKPI tk rs (SwarmState.data s)"
  obtain as' k' where r:
    "(if nw then swarmStepNew tk (renMix d) rs 3 (SwarmState.agents s)
      else swarmStep tk (renMix d) rs 3 (SwarmState.agents s)) = Inr (as', k')" "lineInv as'"
    using swarmStep_ok [OF assms, of tk "renMix d" 3] swarmStepNew_ok [OF assms, of tk "renMix d" 3]
    by (cases nw) auto
  have "stepLoop nw rs s =
          Inr (s\<lparr>SwarmState.tick := tk, SwarmState.data := d, SwarmState.agents := as'\<rparr>)"
    unfolding stepLoop_def Let_def tk_def [symmetric] d_def [symmetric] by (simp add: r(1))
  then show ?thesis using r(2) by (simp add: tk_def)
qed

lemma execSwarm_ok:
  assumes "lineInv (SwarmState.agents s)" "swarmDrawsOK c"
  shows "\<exists>s'. execSwarm nw c s = Inr s' \<and> lineInv (SwarmState.agents s')"
proof (cases c)
  case (LoopStep rs)
  then show ?thesis using stepLoop_ok [OF assms(1), of rs nw] assms by auto
next
  case Start
  then show ?thesis using assms(1) by (simp add: start_def)
next
  case Stop
  then show ?thesis using assms(1) by (simp add: stop_def)
next
  case (ResetSwarm rs)
  then show ?thesis using lineInv_reset [OF assms(1), of rs] assms(2) by simp
qed

lemma runSwarm_ok:
  "lineInv (SwarmState.agents s) \<Longrightarrow> list_all swarmDrawsOK cmds \<Longrightarrow>
   \<exists>s'. runSwarm nw cmds s = Inr s' \<and> lineInv (SwarmState.agents s')"
proof (induction cmds arbitrary: s)
  case Nil
  then show ?case by simp
next
  case (Cons c cmds)
  from Cons.prems obtain s1 where s1: "execSwarm nw c s = Inr s1" "lineInv (SwarmState.agents s1)"
    using execSwarm_ok [of s c nw] by auto
  show ?case using Cons.IH [OF s1(2)] Cons.prems(2) by (simp add: s1(1))
qed

lemma exec_unit_data:
  assumes "\<exists>cs mf rs'. unit_draws rs' \<and> SimState.data s = calculateSimulationData sc cs mf rs'"
    and "simDrawsOK c"
  shows "\<exists>cs mf rs'. unit_draws rs'
            \<and> SimState.data (exec sc c s) = calculateSimulationData sc cs mf rs'"
  using assms
  by (cases c) (auto simp: onInterval_def handlePlayPause_def handleReset_def
        handleInjectFault_def Let_def)

lemma run_unit_data:
  "\<exists>cs mf rs'. unit_draws rs' \<and> SimState.data s = calculateSimulationData sc cs mf rs' \<Longrightarrow>
   list_all simDrawsOK cmds \<Longrightarrow>
   \<exists>cs mf rs'. unit_draws rs'
      \<and> SimState.data (run sc cmds s) = calculateSimulationData sc cs mf rs'"
  unfolding run_def
proof (induction cmds arbitrary: s)
  case Nil
  then show ?case by simp
next
  case (Cons c cmds)
  have "\<exists>cs mf rs'. unit_draws rs'
          \<and> SimState.data (exec sc c s) = calculateSimulationData sc cs mf rs'"
    using exec_unit_data [OF Cons.prems(1)] Cons.prems(2) by simp
  from Cons.IH [OF this] Cons.prems(2) show ?case by simp
qed

lemma run_range:
  assumes "unit_draws rs0" "list_all simDrawsOK cmds"
  shows "list_all inRangeData (SimulationData.agents (SimState.data (run sc cmds (initSim sc rs0))))"
proof -
  have "\<exists>cs mf rs'. unit_draws rs'
      \<and> SimState.data (initSim sc rs0) = calculateSimulationData sc cs mf rs'"
    using assms(1) by (auto simp: initSim_def)
  from run_unit_data [OF this assms(2)] obtain cs mf rs' where
    "unit_draws rs'"
    "SimState.data (run sc cmds (initSim sc rs0)) = calculateSimulationData sc cs mf rs'"
    by blast
  then show ?thesis
    by (simp add: agents_calc list_all_iff genAgents_range)
qed

section \<open>Bounds\<close>

lemma three_agents:
  "createInitialAgents 3 rs = [initialAgent 3 rs 0, initialAgent 3 rs 1, initialAgent 3 rs 2]"
  by (simp add: createInitialAgents_def upt_conv_Cons flip: numeral_2_eq_2)

lemma ring_load_example:
  "map_sum id (\<lambda>s. Agent.load (RingState.agents s ! 1))
      (runRing 3 [TriggerFailure 0, Toggle, Step] (initRing 3 (\<lambda>k. 9 / 10))) = Inr (Num 133)"
  by (simp add: initRing_def three_agents initialAgent_def triggerFailure_def
      toggleSimulation_def simulationStep_def updateAgent_def neighborLookup_def Let_def
      jsor_def truthy_def jsgt_def jsle_def jsmin_def jsmax_def jssub_def targetFan_def
      INITIAL_TEMP_def TARGET_TEMP_def TEMP_THRESHOLD_HIGH_def TEMP_THRESHOLD_LOW_def
      COOLING_RATE_def HEATING_RATE_def infOfSign_def)

lemma ring_load_infinite_example:
  "map_sum id (\<lambda>s. Agent.load (RingState.agents s ! 1))
      (runRing 3 [TriggerFailure 0, TriggerFailure 2, Toggle, Step] (initRing 3 (\<lambda>k. 9 / 10)))
     = Inr PInf"
  by (simp add: initRing_def three_agents initialAgent_def triggerFailure_def
      toggleSimulation_def simulationStep_def updateAgent_def neighborLookup_def Let_def
      jsor_def truthy_def jsgt_def jsle_def jsmin_def jsmax_def jssub_def targetFan_def
      INITIAL_TEMP_def TARGET_TEMP_def TEMP_THRESHOLD_HIGH_def TEMP_THRESHOLD_LOW_def
      COOLING_RATE_def HEATING_RATE_def infOfSign_def)


text \<open>
  C1 (amended). After every finite run of commands whose draws lie in \<open>[0, 1)\<close>: in the
  tick-counter variant every agent of the snapshot has its temperature in \<open>[23.5, 33]\<close>, its
  fan speed in \<open>[0, 100]\<close> and its power in \<open>[0, 600]\<close>; in the ring variant the run raises no
  exception and every agent has a finite temperature in \<open>[18, 40]\<close>, a finite fan speed in
  \<open>[0, 100]\<close> and a positive load, finite or infinite; in both copies of the line
  variant the run raises no exception and every agent has its temperature in \<open>[22, 42]\<close>, its
  load in \<open>[0.15, 0.95]\<close> and its power in \<open>[0.2, 6]\<close>.
\<close>

theorem bounds_invariant:
  assumes "unit_draws rs0" and "list_all simDrawsOK cmdsT" and "list_all ringDrawsOK cmdsR"
    and "list_all swarmDrawsOK cmdsL"
  shows "list_all inRangeData
           (SimulationData.agents (SimState.data (run sc cmdsT (initSim sc rs0))))
     \<and> (\<exists>s. runRing N cmdsR (initRing N rs0) = Inr s
           \<and> list_all (\<lambda>a. finiteIn 18 40 (Agent.temperature a)
                            \<and> finiteIn 0 100 (Agent.fanSpeed a) \<and> posOrInf (Agent.load a))
                (RingState.agents s))
     \<and> (\<exists>s. runSwarm nw cmdsL (initSwarm rs0) = Inr s
           \<and> list_all lineRange (SwarmState.agents s))"
proof -
  from runRing_ok [OF initRing_inv [OF assms(1)] assms(3), of N]
  obtain s where s: "runRing N cmdsR (initRing N rs0) = Inr s" "ringInv (nat N) s" by blast
  have ring: "list_all (\<lambda>a. finiteIn 18 40 (Agent.temperature a)
                            \<and> finiteIn 0 100 (Agent.fanSpeed a) \<and> posOrInf (Agent.load a))
                (RingState.agents s)"
    using s(2) by (simp add: ringInv_def ringAgentOK_def list_all_iff)
  have "lineInv (SwarmState.agents (initSwarm rs0))"
    by (simp add: initSwarm_def lineInv_initialSwarm [OF assms(1)])
  from runSwarm_ok [OF this assms(4), of nw]
  obtain t where t: "runSwarm nw cmdsL (initSwarm rs0) = Inr t" "lineInv (SwarmState.agents t)"
    by blast
  show ?thesis
    using run_range [OF assms(1,2), of sc] s(1) ring t by (auto simp: lineInv_def)
qed

theorem bounds_invariant_witness:
  "unit_draws (\<lambda>k. 1 / 2)
   \<and> list_all simDrawsOK [PlayPause, Tick (\<lambda>k. 1 / 2)]
   \<and> list_all ringDrawsOK [TriggerFailure 0, Toggle, Step]
   \<and> list_all swarmDrawsOK [Start, LoopStep (\<lambda>k. 1 / 2)]
   \<and> list_all inRangeData
        (SimulationData.agents (SimState.data
           (run prototype [PlayPause, Tick (\<lambda>k. 1 / 2)] (initSim prototype (\<lambda>k. 1 / 2)))))
   \<and> (\<exists>s. runRing 3 [TriggerFailure 0, Toggle, Step] (initRing 3 (\<lambda>k. 1 / 2)) = Inr s
         \<and> list_all (\<lambda>a. finiteIn 18 40 (Agent.temperature a)
                          \<and> finiteIn 0 100 (Agent.fanSpeed a) \<and> posOrInf (Agent.load a))
              (RingState.agents s))
   \<and> (\<exists>s. runSwarm False [Start, LoopStep (\<lambda>k. 1 / 2)] (initSwarm (\<lambda>k. 1 / 2)) = Inr s
         \<and> list_all lineRange (SwarmState.agents s))"
proof -
  have u: "unit_draws (\<lambda>k. 1 / 2)" by (simp add: unit_draws_def)
  have c: "list_all simDrawsOK [PlayPause, Tick (\<lambda>k. 1 / 2)]"
    "list_all ringDrawsOK [TriggerFailure 0, Toggle, Step]"
    "list_all swarmDrawsOK [Start, LoopStep (\<lambda>k. 1 / 2)]"
    using u by simp_all
  from bounds_invariant [OF u c, of prototype 3 False] u c show ?thesis by blast
qed

text \<open>
  C1 as stated fails for the load of the ring variant. Three agents created with all draws
  0.9 have load 70; after a failure of agent 0 and one step agent 1 has load 133, outside the
  range \<open>[25, 75]\<close> of created loads, and after failures of both its neighbours and one step
  its load is infinite, outside every range.
\<close>

theorem ring_load_counterexample:
  "Agent.load (RingState.agents (initRing 3 (\<lambda>k. 9 / 10)) ! 1) = Num 70
   \<and> map_sum id (\<lambda>s. Agent.load (RingState.agents s ! 1))
        (runRing 3 [TriggerFailure 0, Toggle, Step] (initRing 3 (\<lambda>k. 9 / 10))) = Inr (Num 133)
   \<and> map_sum id (\<lambda>s. Agent.load (RingState.agents s ! 1))
        (runRing 3 [TriggerFailure 0, TriggerFailure 2, Toggle, Step] (initRing 3 (\<lambda>k. 9 / 10)))
       = Inr PInf"
proof -
  have "Agent.load (RingState.agents (initRing 3 (\<lambda>k. 9 / 10)) ! 1) = Num 70"
    by (simp add: initRing_def three_agents initialAgent_def)
  then show ?thesis
    using ring_load_example ring_load_infinite_example by simp
qed

end
